theory Spec2Isabelle
  imports Main "HOL-Library.Sublist" "HOL-Library.Multiset"
begin

section \<open>JavaScript values\<close>

text \<open>
  A JavaScript string is a \<^typ>\<open>string\<close>; a property that may be \<^verbatim>\<open>undefined\<close> or
  \<^verbatim>\<open>null\<close> is a \<^typ>\<open>string option\<close>. A string is truthy when it is not empty.
  A thrown \<^verbatim>\<open>Error\<close> is a value with its \<^verbatim>\<open>name\<close>, \<^verbatim>\<open>message\<close> and (for network
  errors) \<^verbatim>\<open>code\<close>.
\<close>

record js_error =
  name :: string
  message :: string
  code :: "string option"

definition Error :: "string \<Rightarrow> js_error" where
  "Error msg = \<lparr>name = ''Error'', message = msg, code = None\<rparr>"

text \<open>\<^verbatim>\<open>a || b\<close> on optional strings, and \<^verbatim>\<open>a || 'literal'\<close>.\<close>

fun js_or :: "string option \<Rightarrow> string option \<Rightarrow> string option" where
  "js_or (Some s) b = (if s \<noteq> [] then Some s else b)"
| "js_or None b = b"

fun or_default :: "string option \<Rightarrow> string \<Rightarrow> string" where
  "or_default (Some s) d = (if s \<noteq> [] then s else d)"
| "or_default None d = d"

text \<open>\<^verbatim>\<open>s.includes(pat)\<close>: \<open>pat\<close> occurs in \<open>s\<close> as a contiguous run.\<close>

fun str_includes :: "string \<Rightarrow> string \<Rightarrow> bool" where
  "str_includes [] pat = (pat = [])"
| "str_includes (c # cs) pat = (prefix pat (c # cs) \<or> str_includes cs pat)"

text \<open>
  \<^verbatim>\<open>s.trim()\<close> strips white space at both ends. Of the characters below 256 the white
  space and line terminators of ECMAScript are TAB, LF, VT, FF, CR, SP and NBSP.
\<close>

definition is_ws :: "char \<Rightarrow> bool" where
  "is_ws c \<longleftrightarrow> (of_char c :: nat) \<in> {9, 10, 11, 12, 13, 32, 160}"

definition trim :: "string \<Rightarrow> string" where
  "trim s = rev (dropWhile is_ws (rev (dropWhile is_ws s)))"

section \<open>Articles and the article table\<close>

text \<open>
  The object literal built for each parsed item (\<^verbatim>\<open>articleData\<close>). Its \<^verbatim>\<open>pubDate\<close> is a
  JavaScript \<^verbatim>\<open>Date\<close>, which may be an Invalid Date (\<open>None\<close>); the \<^verbatim>\<open>pubDate\<close> column of
  a stored row is \<^verbatim>\<open>NOT NULL\<close> and holds a time in milliseconds.
\<close>

record 'd article_data =
  title :: string
  link :: string
  pubDate :: 'd
  rawContent :: string
  author :: string
  guid :: string
  categories :: "string list"

type_synonym candidate = "int option article_data"

record article = "int article_data" +
  rowid :: nat
  feedId :: nat
  createdAt :: int
  updatedAt :: int

text \<open>
  The database: the table \<^verbatim>\<open>articles\<close> with its auto-increment counter, and the ids of
  the rows of the table \<^verbatim>\<open>feeds\<close>, which \<^verbatim>\<open>feedId\<close> references.
\<close>

record store =
  rows :: "article list"
  nextId :: nat
  feedIds :: "nat list"

text \<open>
  The validators declared by \<^verbatim>\<open>Article.initModel\<close>: \<^verbatim>\<open>title\<close> and \<^verbatim>\<open>guid\<close> have
  \<^verbatim>\<open>len: [1, 500]\<close>, \<^verbatim>\<open>link\<close> has \<^verbatim>\<open>isUrl\<close> (the validator library's predicate, a
  parameter here), \<^verbatim>\<open>pubDate\<close> has \<^verbatim>\<open>isDate\<close>.
\<close>

definition validate :: "(string \<Rightarrow> bool) \<Rightarrow> candidate \<Rightarrow> bool" where
  "validate isUrl d \<longleftrightarrow>
     1 \<le> length (title d) \<and> length (title d) \<le> 500 \<and>
     isUrl (link d) \<and>
     pubDate d \<noteq> None \<and>
     1 \<le> length (guid d) \<and> length (guid d) \<le> 500"

definition SequelizeValidationError :: js_error where
  "SequelizeValidationError =
     \<lparr>name = ''SequelizeValidationError'', message = ''Validation error'', code = None\<rparr>"

definition SequelizeUniqueConstraintError :: js_error where
  "SequelizeUniqueConstraintError =
     \<lparr>name = ''SequelizeUniqueConstraintError'', message = ''Validation error'', code = None\<rparr>"

definition SequelizeDatabaseError :: js_error where
  "SequelizeDatabaseError =
     \<lparr>name = ''SequelizeDatabaseError'', message = ''Data too long for column'', code = None\<rparr>"

definition SequelizeForeignKeyConstraintError :: js_error where
  "SequelizeForeignKeyConstraintError =
     \<lparr>name = ''SequelizeForeignKeyConstraintError'',
      message = ''Cannot add or update a child row: a foreign key constraint fails'',
      code = None\<rparr>"

text \<open>
  The sizes the schema declares for columns that no validator bounds: \<^verbatim>\<open>link\<close> is a
  \<^verbatim>\<open>STRING(1000)\<close> and \<^verbatim>\<open>author\<close> a \<^verbatim>\<open>STRING(255)\<close> (\<^verbatim>\<open>title\<close> and \<^verbatim>\<open>guid\<close>, both
  \<^verbatim>\<open>STRING(500)\<close>, are bounded by their validators). The database refuses a longer value.
\<close>

definition fits_columns :: "candidate \<Rightarrow> bool" where
  "fits_columns d \<longleftrightarrow> length (link d) \<le> 1000 \<and> length (author d) \<le> 255"

text \<open>
  \<^verbatim>\<open>Article.create({...articleData, feedId, createdAt, updatedAt})\<close> against the schema:
  the validators run first, in JavaScript; then the database checks the column sizes,
  the unique index on \<^verbatim>\<open>link\<close> (over the whole table), the unique index
  \<^verbatim>\<open>articles_feed_guid_unique\<close> on \<^verbatim>\<open>(feedId, guid)\<close> and the foreign key of \<^verbatim>\<open>feedId\<close>.
  Strings are compared as they are (the collation of the columns is taken to be binary).
  When several checks of the database fail, the error is that of the first in this order.
\<close>

definition new_row :: "candidate \<Rightarrow> int \<Rightarrow> nat \<Rightarrow> nat \<Rightarrow> int \<Rightarrow> article" where
  "new_row d t n fid now =
     \<lparr>title = title d, link = link d, pubDate = t, rawContent = rawContent d,
      author = author d, guid = guid d, categories = categories d,
      rowid = n, feedId = fid, createdAt = now, updatedAt = now\<rparr>"

definition create ::
  "(string \<Rightarrow> bool) \<Rightarrow> store \<Rightarrow> candidate \<Rightarrow> nat \<Rightarrow> int \<Rightarrow> js_error + article \<times> store" where
  "create isUrl db d fid now =
     (case pubDate d of
        None \<Rightarrow> Inl SequelizeValidationError
      | Some t \<Rightarrow>
          if \<not> validate isUrl d then Inl SequelizeValidationError
          else if \<not> fits_columns d then Inl SequelizeDatabaseError
          else if \<exists>r \<in> set (rows db). link r = link d
            then Inl SequelizeUniqueConstraintError
          else if \<exists>r \<in> set (rows db). feedId r = fid \<and> guid r = guid d
            then Inl SequelizeUniqueConstraintError
          else if fid \<notin> set (feedIds db) then Inl SequelizeForeignKeyConstraintError
          else let a = new_row d t (nextId db) fid now
               in Inr (a, db\<lparr>rows := rows db @ [a], nextId := Suc (nextId db)\<rparr>))"

section \<open>\<^verbatim>\<open>Article.bulkCreateSafeWithDupeCheck\<close>\<close>

text \<open>The lines the loop writes to the console, one per candidate that is not stored.\<close>

datatype log_line =
    SkippedDuplicate string string
  | SkippedDbConstraint string
  | ErrorCreating string string

text \<open>
  The variables of the loop: the three lookup sets, the list \<^verbatim>\<open>newArticles\<close>, the table
  and the console.
\<close>

record dupe_state =
  existingLinks :: "string set"
  existingGuids :: "string set"
  existingTitles :: "string set"
  newArticles :: "article list"
  db :: store
  console :: "log_line list"

text \<open>
  \<^verbatim>\<open>findAll({where: {feedId}})\<close> and the three
  \<^verbatim>\<open>new Set(existingArticles.map(...).filter(Boolean))\<close>.
\<close>

definition findAll_feed :: "store \<Rightarrow> nat \<Rightarrow> article list" where
  "findAll_feed st fid = filter (\<lambda>r. feedId r = fid) (rows st)"

definition lookup_set :: "(article \<Rightarrow> string) \<Rightarrow> article list \<Rightarrow> string set" where
  "lookup_set field existing = set (filter (\<lambda>s. s \<noteq> []) (map field existing))"

definition init_state :: "store \<Rightarrow> nat \<Rightarrow> dupe_state" where
  "init_state st fid =
     (let existingArticles = findAll_feed st fid in
      \<lparr>existingLinks = lookup_set link existingArticles,
       existingGuids = lookup_set guid existingArticles,
       existingTitles = lookup_set title existingArticles,
       newArticles = [], db = st, console = []\<rparr>)"

text \<open>The \<^verbatim>\<open>if / else if / else if\<close> chain: the \<^verbatim>\<open>duplicateReason\<close>, if any.\<close>

definition duplicateReason :: "dupe_state \<Rightarrow> candidate \<Rightarrow> string option" where
  "duplicateReason s d =
     (if link d \<noteq> [] \<and> link d \<in> existingLinks s then Some ''duplicate link''
      else if guid d \<noteq> [] \<and> guid d \<in> existingGuids s then Some ''duplicate guid''
      else if title d \<noteq> [] \<and> title d \<in> existingTitles s then Some ''duplicate title''
      else None)"

definition add_truthy :: "string \<Rightarrow> string set \<Rightarrow> string set" where
  "add_truthy v S = (if v \<noteq> [] then insert v S else S)"

text \<open>One iteration of \<^verbatim>\<open>for (const articleData of articles)\<close>.\<close>

definition process_article ::
  "(string \<Rightarrow> bool) \<Rightarrow> nat \<Rightarrow> int \<Rightarrow> dupe_state \<Rightarrow> candidate \<Rightarrow> dupe_state" where
  "process_article isUrl fid now s d =
     (case duplicateReason s d of
        Some reason \<Rightarrow> s\<lparr>console := console s @ [SkippedDuplicate reason (title d)]\<rparr>
      | None \<Rightarrow>
          (case create isUrl (db s) d fid now of
             Inr (a, db') \<Rightarrow>
               s\<lparr>newArticles := newArticles s @ [a],
                 db := db',
                 existingLinks := add_truthy (link d) (existingLinks s),
                 existingGuids := add_truthy (guid d) (existingGuids s),
                 existingTitles := add_truthy (title d) (existingTitles s)\<rparr>
           | Inl e \<Rightarrow>
               if name e = ''SequelizeUniqueConstraintError''
                  \<or> str_includes (message e) ''duplicate''
                  \<or> str_includes (message e) ''unique constraint''
               then s\<lparr>console := console s @ [SkippedDbConstraint (title d)]\<rparr>
               else s\<lparr>console := console s @ [ErrorCreating (title d) (message e)]\<rparr>))"

fun dupe_loop ::
  "(string \<Rightarrow> bool) \<Rightarrow> nat \<Rightarrow> int \<Rightarrow> dupe_state \<Rightarrow> candidate list \<Rightarrow> dupe_state" where
  "dupe_loop isUrl fid now s [] = s"
| "dupe_loop isUrl fid now s (d # ds) =
     dupe_loop isUrl fid now (process_article isUrl fid now s d) ds"

text \<open>
  The whole method. An empty batch returns \<^verbatim>\<open>[]\<close> before the table is read. The result
  is the final state of the loop: \<^verbatim>\<open>newArticles\<close> is the returned list, \<^verbatim>\<open>db\<close> the table
  afterwards.
\<close>

definition bulkCreateSafeWithDupeCheck ::
  "(string \<Rightarrow> bool) \<Rightarrow> int \<Rightarrow> store \<Rightarrow> candidate list \<Rightarrow> nat \<Rightarrow> dupe_state" where
  "bulkCreateSafeWithDupeCheck isUrl now st articles fid =
     (if articles = [] then
        \<lparr>existingLinks = {}, existingGuids = {}, existingTitles = {},
         newArticles = [], db = st, console = []\<rparr>
      else dupe_loop isUrl fid now (init_state st fid) articles)"

section \<open>Parsed feeds and the fallback parser\<close>

text \<open>
  An item as \<^verbatim>\<open>rss-parser\<close> hands it over (every property may be missing), and an item
  as \<^verbatim>\<open>feedparser\<close> emits it. Dates are kept as their text; \<^verbatim>\<open>new Date(text)\<close> is the
  parameter \<open>Date_parse\<close>, which gives \<open>None\<close> for an Invalid Date.
\<close>

record raw_item =
  item_title :: "string option"
  item_link :: "string option"
  item_pubDate :: "string option"
  item_content :: "string option"
  item_contentSnippet :: "string option"
  item_summary :: "string option"
  item_description :: "string option"
  item_creator :: "string option"
  item_author :: "string option"
  item_guid :: "string option"
  item_categories :: "string list option"

record fp_item =
  fp_title :: "string option"
  fp_link :: "string option"
  fp_guid :: "string option"
  fp_pubdate :: "string option"
  fp_date :: "string option"
  fp_description :: "string option"
  fp_summary :: "string option"
  fp_author :: "string option"
  fp_categories :: "string list option"

text \<open>
  The answer to one \<^verbatim>\<open>axios\<close> GET: the request is rejected (network error, HTTP error
  status, timeout), or a response arrives and is piped into \<^verbatim>\<open>feedparser\<close>, which then
  emits \<^verbatim>\<open>error\<close> or runs to \<^verbatim>\<open>end\<close> with the items it read.
\<close>

datatype http_result =
    Rejected js_error
  | Response "js_error + fp_item list"

text \<open>
  What the code cannot see from inside: the primary parser's result for a URL
  (\<^verbatim>\<open>items\<close> of the parsed feed, possibly missing), the server's answer to a GET with a
  given User-Agent, the validator library's \<^verbatim>\<open>isUrl\<close> and the parsing of a date text.
\<close>

record env =
  parseURL :: "string \<Rightarrow> js_error + raw_item list option"
  axios :: "string \<Rightarrow> string \<Rightarrow> http_result"
  isUrl :: "string \<Rightarrow> bool"
  Date_parse :: "string \<Rightarrow> int option"

definition userAgents :: "string list" where
  "userAgents =
    [''Mozilla/5.0 (Windows NT 10.0; Win64; x64) AppleWebKit/537.36 (KHTML, like Gecko) Chrome/120.0.0.0 Safari/537.36'',
     ''Mozilla/5.0 (Macintosh; Intel Mac OS X 10_15_7) AppleWebKit/537.36 (KHTML, like Gecko) Chrome/120.0.0.0 Safari/537.36'',
     ''Mozilla/5.0 (X11; Linux x86_64) AppleWebKit/537.36 (KHTML, like Gecko) Chrome/120.0.0.0 Safari/537.36'',
     ''RSS Feed Reader Bot/1.0'',
     ''Feedfetcher-Google; (+http://www.google.com/feedfetcher.html)'']"

text \<open>The \<^verbatim>\<open>readable\<close> handler of \<^verbatim>\<open>ArticleFetcher.parseWithFeedParser\<close>.\<close>

definition readable :: "fp_item \<Rightarrow> raw_item" where
  "readable item =
     \<lparr>item_title = fp_title item,
      item_link = js_or (fp_link item) (fp_guid item),
      item_pubDate = js_or (fp_pubdate item) (fp_date item),
      item_content = js_or (fp_description item) (fp_summary item),
      item_contentSnippet = fp_summary item,
      item_summary = None,
      item_description = None,
      item_creator = None,
      item_author = fp_author item,
      item_guid = js_or (fp_guid item) (fp_link item),
      item_categories = Some (case fp_categories item of None \<Rightarrow> [] | Some cs \<Rightarrow> cs)\<rparr>"

text \<open>
  What a run of the fallback does, in order: the GETs (by their User-Agent), the console
  lines of failed attempts, and the timers it sets.
\<close>

datatype io_event =
    Request string
  | AttemptFailed nat string
  | SetTimeout nat

text \<open>
  \<^verbatim>\<open>tryRequest\<close>, with \<^verbatim>\<open>currentAgent\<close> as its argument. It returns how the promise is
  settled (\<open>Inl\<close>: rejected) and the events. The other request headers are fixed or
  depend on the URL alone, so \<open>http\<close> is the server's answer by User-Agent.
\<close>

function tryRequest ::
  "(string \<Rightarrow> http_result) \<Rightarrow> nat \<Rightarrow> (js_error + raw_item list) \<times> io_event list" where
  "tryRequest http currentAgent =
     (if currentAgent \<ge> length userAgents
        then (Inl (Error ''All User-Agent strings failed''), [])
      else
        (case http (userAgents ! currentAgent) of
           Response body \<Rightarrow>
             (case body of
                Inl err \<Rightarrow> (Inl err, [Request (userAgents ! currentAgent)])
              | Inr read_items \<Rightarrow>
                  (Inr (map readable read_items), [Request (userAgents ! currentAgent)]))
         | Rejected err \<Rightarrow>
             if Suc currentAgent < length userAgents
             then apsnd (\<lambda>later. Request (userAgents ! currentAgent)
                                 # AttemptFailed (currentAgent + 1) (message err)
                                 # SetTimeout 1000 # later)
                        (tryRequest http (Suc currentAgent))
             else (Inl err, [Request (userAgents ! currentAgent),
                             AttemptFailed (currentAgent + 1) (message err)])))"
  by pat_completeness auto
termination
  by (relation "measure (\<lambda>(http, currentAgent). length userAgents - currentAgent)") auto

declare tryRequest.simps [simp del]

definition parseWithFeedParser ::
  "env \<Rightarrow> string \<Rightarrow> (js_error + raw_item list) \<times> io_event list" where
  "parseWithFeedParser E url = tryRequest (axios E url) 0"

section \<open>\<^verbatim>\<open>ArticleFetcher.fetchFeedArticles\<close> and \<^verbatim>\<open>fetchAllFeeds\<close>\<close>

record feed =
  feed_id :: nat
  url :: string
  feed_title :: string
  isActive :: bool
  lastFetched :: "int option"
  errorCount :: nat

text \<open>The object built from each item by \<^verbatim>\<open>parsedFeed.items.map\<close>.\<close>

definition normalize_item :: "env \<Rightarrow> int \<Rightarrow> raw_item \<Rightarrow> candidate" where
  "normalize_item E now item =
     \<lparr>title = or_default (item_title item) ''Untitled Article'',
      link = or_default (js_or (item_link item) (item_guid item)) [],
      pubDate = (case item_pubDate item of
                   Some text \<Rightarrow> if text \<noteq> [] then Date_parse E text else Some now
                 | None \<Rightarrow> Some now),
      rawContent = or_default (js_or (js_or (js_or (item_content item) (item_contentSnippet item))
                                            (item_summary item)) (item_description item)) [],
      author = or_default (js_or (item_creator item) (item_author item)) [],
      guid = or_default (js_or (item_guid item) (item_link item)) [],
      categories = (case item_categories item of None \<Rightarrow> [] | Some cs \<Rightarrow> cs)\<rparr>"

text \<open>The predicate of \<^verbatim>\<open>articles.filter\<close>.\<close>

definition hasLink :: "candidate \<Rightarrow> bool" where
  "hasLink article \<longleftrightarrow> link article \<noteq> [] \<and> trim (link article) \<noteq> []"

definition hasDescription :: "candidate \<Rightarrow> bool" where
  "hasDescription article \<longleftrightarrow> rawContent article \<noteq> [] \<and> trim (rawContent article) \<noteq> []"

definition validArticles :: "env \<Rightarrow> int \<Rightarrow> raw_item list \<Rightarrow> candidate list" where
  "validArticles E now parsed_items =
     filter (\<lambda>article. hasLink article \<and> hasDescription article)
            (map (normalize_item E now) parsed_items)"

text \<open>
  The two parsers in turn: \<open>Inr\<close> the parsed feed's \<^verbatim>\<open>items\<close>, \<open>Inl\<close> the error thrown when
  both fail.
\<close>

definition parse_feed :: "env \<Rightarrow> string \<Rightarrow> js_error + raw_item list option" where
  "parse_feed E u =
     (case parseURL E u of
        Inr parsedFeed \<Rightarrow> Inr parsedFeed
      | Inl primaryError \<Rightarrow>
          (case fst (parseWithFeedParser E u) of
             Inr read_items \<Rightarrow> Inr (Some read_items)
           | Inl fallbackError \<Rightarrow>
               Inl (Error (''Both parsers failed. Primary: '' @ message primaryError
                           @ '', Fallback: '' @ message fallbackError))))"

text \<open>
  \<^verbatim>\<open>fetchFeedArticles(feed)\<close> at time \<open>now\<close> on table \<open>st\<close>: the value returned or the
  error thrown, the feed after \<^verbatim>\<open>feed.update\<close>, and the table.
\<close>

definition fetchFeedArticles ::
  "env \<Rightarrow> feed \<Rightarrow> int \<Rightarrow> store \<Rightarrow> (js_error + nat) \<times> feed \<times> store" where
  "fetchFeedArticles E f now st =
     (case parse_feed E (url f) of
        Inl error \<Rightarrow>
          (Inl (Error (''Failed to fetch articles for feed \"'' @ feed_title f @ ''\": ''
                       @ message error)),
           f\<lparr>lastFetched := Some now, errorCount := errorCount f + 1\<rparr>, st)
      | Inr parsedItems \<Rightarrow>
          (case parsedItems of
             None \<Rightarrow> (Inr 0, f, st)
           | Some its \<Rightarrow>
               if its = [] then (Inr 0, f, st)
               else if validArticles E now its = [] then (Inr 0, f, st)
               else
                 (let done = bulkCreateSafeWithDupeCheck (isUrl E) now st
                               (validArticles E now its) (feed_id f)
                  in (Inr (length (newArticles done)),
                      f\<lparr>lastFetched := Some now, errorCount := 0\<rparr>,
                      db done))))"

record run_summary =
  totalFetched :: nat
  totalErrors :: nat
  feedsProcessed :: nat

text \<open>
  The loop \<^verbatim>\<open>for (const feed of feeds)\<close> with its \<^verbatim>\<open>try/catch\<close>: the two counters, the
  feeds as they are after their fetch, and the table.
\<close>

fun feeds_loop ::
  "env \<Rightarrow> int \<Rightarrow> nat \<times> nat \<times> feed list \<times> store \<Rightarrow> feed list
     \<Rightarrow> nat \<times> nat \<times> feed list \<times> store" where
  "feeds_loop E now acc [] = acc"
| "feeds_loop E now (fetched, errors, seen, st) (f # rest) =
     (case fetchFeedArticles E f now st of
        (Inr articleCount, f', st') \<Rightarrow>
          feeds_loop E now (fetched + articleCount, errors, seen @ [f'], st') rest
      | (Inl error, f', st') \<Rightarrow>
          feeds_loop E now (fetched, errors + 1, seen @ [f'], st') rest)"

definition fetchAllFeeds ::
  "env \<Rightarrow> feed list \<Rightarrow> int \<Rightarrow> store \<Rightarrow> run_summary \<times> feed list \<times> store" where
  "fetchAllFeeds E feedTable now st =
     (let feeds = filter isActive feedTable in
      case feeds_loop E now (0, 0, [], st) feeds of
        (fetched, errors, seen, st') \<Rightarrow>
          (\<lparr>totalFetched = fetched, totalErrors = errors, feedsProcessed = length feeds\<rparr>,
           seen, st'))"

section \<open>\<^verbatim>\<open>FeedService.validateFeedUrl\<close>\<close>

text \<open>The metadata of a parsed feed, and the object \<^verbatim>\<open>validateFeedUrl\<close> returns.\<close>

record feed_meta =
  meta_title :: "string option"
  meta_description :: "string option"
  meta_link :: "string option"
  meta_language :: "string option"

record feed_info =
  info_title :: "string option"
  info_description :: "string option"
  info_link :: "string option"
  info_language :: string

record validation =
  valid :: bool
  warning :: "string option"
  error :: "string option"
  feedInfo :: "feed_info option"

definition allowableErrors :: "string list" where
  "allowableErrors =
    [''Response code 403'', ''Status code 403'',
     ''Response code 429'', ''Status code 429'',
     ''Response code 503'', ''Status code 503'',
     ''ETIMEDOUT'', ''ENOTFOUND'', ''ECONNREFUSED'',
     ''socket hang up'', ''timeout'', ''Request timeout'',
     ''getaddrinfo ENOTFOUND'',
     ''Non-whitespace before first tag'',
     ''Invalid character in entity name'',
     ''Unexpected end of input'']"

text \<open>
  \<^verbatim>\<open>allowableErrors.some(a => err.message.includes(a) || err.code === a)\<close>.
\<close>

definition isAllowableError :: "js_error \<Rightarrow> bool" where
  "isAllowableError err \<longleftrightarrow>
     list_ex (\<lambda>allowableError. str_includes (message err) allowableError
                               \<or> code err = Some allowableError) allowableErrors"

text \<open>
  \<open>primary\<close> is how \<^verbatim>\<open>parser.parseURL(url)\<close> ends and \<open>fallback\<close> how
  \<^verbatim>\<open>this.parseWithFeedParser(url)\<close> ends; the second is only looked at when the first
  has failed.
\<close>

definition validateFeedUrl ::
  "string \<Rightarrow> js_error + feed_meta \<Rightarrow> js_error + feed_meta \<Rightarrow> validation" where
  "validateFeedUrl u primary fallback =
     (let success = (\<lambda>usingFallbackParser parsed.
            \<lparr>valid = True,
             warning = (if usingFallbackParser
                        then Some ''Feed parsed successfully using fallback parser (feedparser)''
                        else None),
             error = None,
             feedInfo = Some \<lparr>info_title = meta_title parsed,
                               info_description = meta_description parsed,
                               info_link = meta_link parsed,
                               info_language = or_default (meta_language parsed) ''en''\<rparr>\<rparr>)
      in case primary of
        Inr parsed \<Rightarrow> success False parsed
      | Inl primaryError \<Rightarrow>
          (case fallback of
             Inr parsed \<Rightarrow> success True parsed
           | Inl fallbackError \<Rightarrow>
               if isAllowableError primaryError \<or> isAllowableError fallbackError then
                 \<lparr>valid = True,
                  warning = Some (''Feed may not be accessible right now (both parsers failed), but will be created anyway. Primary: ''
                                  @ message primaryError @ '', Fallback: '' @ message fallbackError),
                  error = None,
                  feedInfo = Some \<lparr>info_title = Some ''Feed Title (Unable to fetch)'',
                                    info_description =
                                      Some ''Description will be updated when feed becomes accessible'',
                                    info_link = Some u,
                                    info_language = ''en''\<rparr>\<rparr>
               else
                 \<lparr>valid = False,
                  warning = None,
                  error = Some (''Both parsers failed. Primary: '' @ message primaryError
                                @ '', Fallback: '' @ message fallbackError),
                  feedInfo = None\<rparr>))"

section \<open>\<^verbatim>\<open>Article.cleanOldArticles\<close>\<close>

text \<open>
  Times are milliseconds since the epoch. \<^verbatim>\<open>new Date()\<close> is the time \<open>now\<close>, and
  \<^verbatim>\<open>cutoffDate.setDate(cutoffDate.getDate() - daysToKeep)\<close> follows ECMAScript's
  \<^verbatim>\<open>Date.prototype.setDate\<close>: it works on the local time of the server, whose offset from
  UTC is \<^verbatim>\<open>LocalTZA(t, isUTC)\<close>, a parameter (for \<open>isUTC\<close> false the argument is a local
  time). With \<open>t\<close> the local time and \<open>dt = DateFromTime(t) - daysToKeep\<close>, the new local
  time is \<^verbatim>\<open>MakeDate(MakeDay(YearFromTime(t), MonthFromTime(t), dt), TimeWithinDay(t))\<close>;
  \<^verbatim>\<open>MakeDay\<close> of a year, a month and a day number \<open>dt\<close> is the day number of the first of
  that month plus \<open>dt - 1\<close>, that is \<open>Day(t) - daysToKeep\<close>. The result is converted back
  to UTC and clipped: a time more than 8.64e15 ms from the epoch is an Invalid Date
  (\<open>None\<close>).
\<close>

definition msPerDay :: int where
  "msPerDay = 86400000"

definition Day :: "int \<Rightarrow> int" where
  "Day t = t div msPerDay"

definition TimeWithinDay :: "int \<Rightarrow> int" where
  "TimeWithinDay t = t mod msPerDay"

definition MakeDate :: "int \<Rightarrow> int \<Rightarrow> int" where
  "MakeDate day time = day * msPerDay + time"

definition LocalTime :: "(int \<Rightarrow> bool \<Rightarrow> int) \<Rightarrow> int \<Rightarrow> int" where
  "LocalTime LocalTZA t = t + LocalTZA t True"

definition UTC :: "(int \<Rightarrow> bool \<Rightarrow> int) \<Rightarrow> int \<Rightarrow> int" where
  "UTC LocalTZA t = t - LocalTZA t False"

definition TimeClip :: "int \<Rightarrow> int option" where
  "TimeClip time = (if \<bar>time\<bar> > 8640000000000000 then None else Some time)"

definition cutoffDate :: "(int \<Rightarrow> bool \<Rightarrow> int) \<Rightarrow> int \<Rightarrow> int \<Rightarrow> int option" where
  "cutoffDate LocalTZA now daysToKeep =
     (let t = LocalTime LocalTZA now;
          newDate = MakeDate (Day t - daysToKeep) (TimeWithinDay t)
      in TimeClip (UTC LocalTZA newDate))"

text \<open>\<^verbatim>\<open>findAll({where: {pubDate: {[Op.lt]: cutoffDate}}})\<close>.\<close>

definition oldArticles :: "store \<Rightarrow> int \<Rightarrow> article list" where
  "oldArticles st cutoff = filter (\<lambda>a. pubDate a < cutoff) (rows st)"

text \<open>
  The window query is sent as written to the database of \<^verbatim>\<open>config/database.js\<close>, whose
  dialect is \<^verbatim>\<open>mysql\<close> in every environment. For MySQL a name in double quotes is a string
  literal, so \<^verbatim>\<open>PARTITION BY "feedId"\<close> partitions by a constant and
  \<^verbatim>\<open>ORDER BY "pubDate" DESC\<close> orders by a constant: all the rows of the table are in one
  partition and \<^verbatim>\<open>ROW_NUMBER()\<close> numbers them from 1 in an order that the engine is free
  to choose. That order is the parameter \<open>scan\<close>, which gives the rows of the table in the
  order in which they are numbered. The rows with \<^verbatim>\<open>rn > articlesPerFeedToKeep\<close> are those
  after the first \<open>articlesPerFeedToKeep\<close>.
\<close>

definition excessArticles ::
  "(article list \<Rightarrow> article list) \<Rightarrow> store \<Rightarrow> int \<Rightarrow> article list" where
  "excessArticles scan st articlesPerFeedToKeep =
     drop (nat articlesPerFeedToKeep) (scan (rows st))"

text \<open>
  \<^verbatim>\<open>destroy({where: {id: allArticleIds}})\<close> removes the rows whose id is in the list and
  returns how many rows it removed.
\<close>

definition destroy :: "store \<Rightarrow> nat list \<Rightarrow> nat \<times> store" where
  "destroy st ids =
     (let kept = filter (\<lambda>a. rowid a \<notin> set ids) (rows st)
      in (length (rows st) - length kept, st\<lparr>rows := kept\<rparr>))"

text \<open>
  The whole method: the number it returns and the table afterwards. When the cutoff is an
  Invalid Date, what the first query does is decided by Sequelize and the database, not by
  this code; the result is then \<open>None\<close>.
\<close>

definition cleanOldArticles ::
  "(int \<Rightarrow> bool \<Rightarrow> int) \<Rightarrow> (article list \<Rightarrow> article list) \<Rightarrow> store \<Rightarrow> int \<Rightarrow> int \<Rightarrow> int
     \<Rightarrow> (nat \<times> store) option" where
  "cleanOldArticles LocalTZA scan st now daysToKeep articlesPerFeedToKeep =
     (case cutoffDate LocalTZA now daysToKeep of
        None \<Rightarrow> None
      | Some cutoff \<Rightarrow>
          (let allArticleIds = map rowid (oldArticles st cutoff)
                               @ map rowid (excessArticles scan st articlesPerFeedToKeep)
           in Some (if length allArticleIds > 0 then destroy st allArticleIds else (0, st))))"

section \<open>Notions used in the statements\<close>

text \<open>
  The lookup sets hold the non-empty links, GUIDs and titles of the feed's articles as they
  were when the method started, and of the articles created since.
\<close>

definition sets_track :: "store \<Rightarrow> nat \<Rightarrow> dupe_state \<Rightarrow> bool" where
  "sets_track st fid s \<longleftrightarrow>
     existingLinks s = lookup_set link (findAll_feed st fid @ newArticles s) \<and>
     existingGuids s = lookup_set guid (findAll_feed st fid @ newArticles s) \<and>
     existingTitles s = lookup_set title (findAll_feed st fid @ newArticles s)"

text \<open>The lookup sets agree with the feed's rows in the table as it is now.\<close>

definition mirrors :: "dupe_state \<Rightarrow> nat \<Rightarrow> bool" where
  "mirrors s fid \<longleftrightarrow>
     existingLinks s = lookup_set link (findAll_feed (db s) fid) \<and>
     existingGuids s = lookup_set guid (findAll_feed (db s) fid) \<and>
     existingTitles s = lookup_set title (findAll_feed (db s) fid)"

text \<open>
  A candidate that a fresh run on table \<open>st\<close> cannot store: the lookup sets built from
  \<open>st\<close> reject it, or \<^verbatim>\<open>create\<close> fails on \<open>st\<close>.
\<close>

definition blocked :: "(string \<Rightarrow> bool) \<Rightarrow> store \<Rightarrow> nat \<Rightarrow> candidate \<Rightarrow> bool" where
  "blocked isU st fid d \<longleftrightarrow>
     duplicateReason (init_state st fid) d \<noteq> None \<or> isl (create isU st d fid 0)"

text \<open>
  Two candidates built from the same item at different times: they can only differ in
  the date that stands in for a missing \<^verbatim>\<open>pubDate\<close>.
\<close>

definition same_identity :: "candidate \<Rightarrow> candidate \<Rightarrow> bool" where
  "same_identity d d' \<longleftrightarrow>
     title d = title d' \<and> link d = link d' \<and> guid d = guid d' \<and> author d = author d' \<and>
     (pubDate d = None \<longleftrightarrow> pubDate d' = None)"

text \<open>
  What each feed of a run ends with (the value returned or the error thrown, and the
  feed afterwards), the table being handed from one feed to the next.
\<close>

fun outcomes :: "env \<Rightarrow> int \<Rightarrow> store \<Rightarrow> feed list \<Rightarrow> ((js_error + nat) \<times> feed) list" where
  "outcomes E now st [] = []"
| "outcomes E now st (f # rest) =
     (case fetchFeedArticles E f now st of
        (r, f', st') \<Rightarrow> (r, f') # outcomes E now st' rest)"

definition inserted_count :: "js_error + nat \<Rightarrow> nat" where
  "inserted_count r = (case r of Inr n \<Rightarrow> n | Inl e \<Rightarrow> 0)"

text \<open>
  Of a run of the fallback: the User-Agents requested, in order; the requests and timers
  without the console lines; whether a GET was rejected; how the promise is settled by
  the answer to the last GET.
\<close>

fun requests :: "io_event list \<Rightarrow> string list" where
  "requests [] = []"
| "requests (Request agent # es) = agent # requests es"
| "requests (e # es) = requests es"

fun schedule :: "io_event list \<Rightarrow> io_event list" where
  "schedule [] = []"
| "schedule (AttemptFailed n msg # es) = schedule es"
| "schedule (e # es) = e # schedule es"

definition rejected :: "http_result \<Rightarrow> bool" where
  "rejected r = (case r of Rejected err \<Rightarrow> True | Response body \<Rightarrow> False)"

definition settle :: "http_result \<Rightarrow> js_error + raw_item list" where
  "settle r = (case r of
                 Rejected err \<Rightarrow> Inl err
               | Response body \<Rightarrow> (case body of Inl err \<Rightarrow> Inl err
                                   | Inr read_items \<Rightarrow> Inr (map readable read_items)))"

text \<open>
  The number of GETs of a run that starts at User-Agent \<open>k\<close>: one more than the number of
  User-Agents from \<open>k\<close> on whose GET is rejected, and never more than are left.
\<close>

definition attempts_from :: "(string \<Rightarrow> http_result) \<Rightarrow> nat \<Rightarrow> nat" where
  "attempts_from http k =
     min (length userAgents - k)
         (Suc (length (takeWhile (\<lambda>agent. rejected (http agent)) (drop k userAgents))))"

text \<open>Requests to the given User-Agents with a timer of one second between them.\<close>

definition alternation :: "string list \<Rightarrow> io_event list" where
  "alternation agents = butlast (concat (map (\<lambda>agent. [Request agent, SetTimeout 1000]) agents))"

section \<open>Example data\<close>

definition blank_guid_item :: raw_item where
  "blank_guid_item =
     \<lparr>item_title = Some ''Post'', item_link = None, item_pubDate = None,
      item_content = Some ''Body'', item_contentSnippet = None, item_summary = None,
      item_description = None, item_creator = None, item_author = None,
      item_guid = Some ''  '', item_categories = None\<rparr>"

definition guid_only_item :: raw_item where
  "guid_only_item =
     \<lparr>item_title = Some ''Post'', item_link = Some [], item_pubDate = None,
      item_content = Some ''Body'', item_contentSnippet = None, item_summary = None,
      item_description = None, item_creator = None, item_author = None,
      item_guid = Some ''https://c.example/p/1'', item_categories = None\<rparr>"

definition urn_guid_item :: raw_item where
  "urn_guid_item =
     \<lparr>item_title = Some ''Post'', item_link = None, item_pubDate = None,
      item_content = Some ''Body'', item_contentSnippet = None, item_summary = None,
      item_description = None, item_creator = None, item_author = None,
      item_guid = Some ''urn:uuid:42'', item_categories = None\<rparr>"

definition linked_item :: raw_item where
  "linked_item =
     \<lparr>item_title = Some ''First'', item_link = Some ''https://h.example/p/0'',
      item_pubDate = None, item_content = Some ''Body'', item_contentSnippet = None,
      item_summary = None, item_description = None, item_creator = None, item_author = None,
      item_guid = Some ''h-0'', item_categories = None\<rparr>"

definition fp_post :: fp_item where
  "fp_post = \<lparr>fp_title = Some ''Post'', fp_link = Some ''https://d.example/p/1'', fp_guid = None,
              fp_pubdate = None, fp_date = None, fp_description = Some ''Body'',
              fp_summary = None, fp_author = None, fp_categories = None\<rparr>"

text \<open>
  A small world: feed B is empty, feed C has two items, feeds F and G have one item each,
  feed H has three,
  feed D answers only the third User-Agent, feed E answers with a page that is no feed,
  and everything else is refused with HTTP 403. A link counts as a URL when it starts
  with "http".
\<close>

definition example_env :: env where
  "example_env =
     \<lparr>parseURL = (\<lambda>u. if u = ''https://b.example/rss'' then Inr (Some [])
                      else if u = ''https://c.example/rss''
                        then Inr (Some [guid_only_item, blank_guid_item])
                      else if u = ''https://f.example/rss'' then Inr (Some [urn_guid_item])
                      else if u = ''https://g.example/rss'' then Inr (Some [guid_only_item])
                      else if u = ''https://h.example/rss''
                        then Inr (Some [linked_item, guid_only_item, blank_guid_item])
                      else Inl (Error ''Status code 403'')),
      axios = (\<lambda>u agent.
                 if u = ''https://e.example/rss'' then Response (Inl (Error ''Not a feed''))
                 else if u = ''https://d.example/rss'' \<and> agent = userAgents ! 2
                   then Response (Inr [fp_post])
                 else Rejected (Error ''Status code 403'')),
      isUrl = (\<lambda>s. prefix ''http'' s),
      Date_parse = (\<lambda>text. None)\<rparr>"

definition empty_store :: store where
  "empty_store = \<lparr>rows = [], nextId = 1, feedIds = [1, 2, 3, 6, 7]\<rparr>"

definition feed_a :: feed where
  "feed_a = \<lparr>feed_id = 1, url = ''https://a.example/rss'', feed_title = ''A'', isActive = True,
             lastFetched = None, errorCount = 0\<rparr>"

definition feed_b :: feed where
  "feed_b = \<lparr>feed_id = 2, url = ''https://b.example/rss'', feed_title = ''B'', isActive = True,
             lastFetched = None, errorCount = 2\<rparr>"

definition feed_c :: feed where
  "feed_c = \<lparr>feed_id = 3, url = ''https://c.example/rss'', feed_title = ''C'', isActive = True,
             lastFetched = None, errorCount = 4\<rparr>"

definition feed_f :: feed where
  "feed_f = \<lparr>feed_id = 6, url = ''https://f.example/rss'', feed_title = ''F'', isActive = True,
             lastFetched = None, errorCount = 0\<rparr>"

definition feed_g :: feed where
  "feed_g = \<lparr>feed_id = 7, url = ''https://g.example/rss'', feed_title = ''G'', isActive = True,
             lastFetched = None, errorCount = 0\<rparr>"

definition feed_h :: feed where
  "feed_h = \<lparr>feed_id = 8, url = ''https://h.example/rss'', feed_title = ''H'', isActive = True,
             lastFetched = None, errorCount = 0\<rparr>"

text \<open>A table that holds one earlier article of feed H.\<close>

definition busy_store :: store where
  "busy_store =
     \<lparr>rows = [\<lparr>title = ''Older'', link = ''https://h.example/p/old'', pubDate = 1,
                rawContent = ''Body'', author = [], guid = ''h-old'', categories = [],
                rowid = 1, feedId = 8, createdAt = 1, updatedAt = 1\<rparr>],
      nextId = 2, feedIds = [8]\<rparr>"

text \<open>A table in which another feed already holds the link of the first candidate.\<close>

definition other_feed_store :: store where
  "other_feed_store =
     \<lparr>rows = [\<lparr>title = ''Elsewhere'', link = ''https://x.example/1'', pubDate = 1,
                rawContent = ''Body'', author = [], guid = ''g0'', categories = [],
                rowid = 1, feedId = 2, createdAt = 1, updatedAt = 1\<rparr>],
      nextId = 2, feedIds = [1, 2]\<rparr>"

definition conflicting :: candidate where
  "conflicting = \<lparr>title = ''Same title'', link = ''https://x.example/1'', pubDate = Some 5,
                  rawContent = ''Body'', author = [], guid = ''g1'', categories = []\<rparr>"

definition later_same_title :: candidate where
  "later_same_title = \<lparr>title = ''Same title'', link = ''https://x.example/2'', pubDate = Some 5,
                  rawContent = ''Body'', author = [], guid = ''g2'', categories = []\<rparr>"

text \<open>
  Three feeds with two articles each, all published on 14 November 2023 between 20:00 and
  22:00 UTC.
\<close>

definition three_feeds_store :: store where
  "three_feeds_store =
     \<lparr>rows = [\<lparr>title = ''a1'', link = ''https://a.example/1'', pubDate = 1699992000000,
                rawContent = ''Body'', author = [], guid = ''a1'', categories = [],
                rowid = 1, feedId = 1, createdAt = 1699999000000, updatedAt = 1699999000000\<rparr>,
              \<lparr>title = ''a2'', link = ''https://a.example/2'', pubDate = 1699995600000,
                rawContent = ''Body'', author = [], guid = ''a2'', categories = [],
                rowid = 2, feedId = 1, createdAt = 1699999000000, updatedAt = 1699999000000\<rparr>,
              \<lparr>title = ''b1'', link = ''https://b.example/1'', pubDate = 1699992000000,
                rawContent = ''Body'', author = [], guid = ''b1'', categories = [],
                rowid = 3, feedId = 2, createdAt = 1699999000000, updatedAt = 1699999000000\<rparr>,
              \<lparr>title = ''b2'', link = ''https://b.example/2'', pubDate = 1699995600000,
                rawContent = ''Body'', author = [], guid = ''b2'', categories = [],
                rowid = 4, feedId = 2, createdAt = 1699999000000, updatedAt = 1699999000000\<rparr>,
              \<lparr>title = ''c1'', link = ''https://c.example/1'', pubDate = 1699992000000,
                rawContent = ''Body'', author = [], guid = ''c1'', categories = [],
                rowid = 5, feedId = 3, createdAt = 1699999000000, updatedAt = 1699999000000\<rparr>,
              \<lparr>title = ''c2'', link = ''https://c.example/2'', pubDate = 1699999200000,
                rawContent = ''Body'', author = [], guid = ''c2'', categories = [],
                rowid = 6, feedId = 3, createdAt = 1699999000000, updatedAt = 1699999000000\<rparr>],
      nextId = 7, feedIds = [1, 2, 3]\<rparr>"

text \<open>
  One feed with an article published 31 days before 14 November 2023, 22:13:20 UTC (time
  1700000000000), and one published 29 days before.
\<close>

definition aged_store :: store where
  "aged_store =
     \<lparr>rows = [\<lparr>title = ''t1'', link = ''https://x.example/1'', pubDate = 1697321600000,
                rawContent = ''Body'', author = [], guid = ''g1'', categories = [],
                rowid = 1, feedId = 1, createdAt = 1697321600000, updatedAt = 1697321600000\<rparr>,
              \<lparr>title = ''t2'', link = ''https://x.example/2'', pubDate = 1697494400000,
                rawContent = ''Body'', author = [], guid = ''g2'', categories = [],
                rowid = 2, feedId = 1, createdAt = 1697494400000, updatedAt = 1697494400000\<rparr>],
      nextId = 3, feedIds = [1]\<rparr>"

text \<open>
  Two time zones: UTC, and New York in the autumn of 2023, where the clocks went back from
  UTC-4 to UTC-5 on 5 November at 06:00 UTC (02:00 local time; a local time of the
  repeated hour is read with the earlier offset).
\<close>

definition utc :: "int \<Rightarrow> bool \<Rightarrow> int" where
  "utc t isUTC = 0"

definition new_york_2023 :: "int \<Rightarrow> bool \<Rightarrow> int" where
  "new_york_2023 t isUTC =
     (if isUTC then (if t < 1699164000000 then - 14400000 else - 18000000)
      else (if t < 1699149600000 then - 14400000 else - 18000000))"

section \<open>Properties of \<^verbatim>\<open>validateFeedUrl\<close>\<close>

lemma str_includes_sublist: "str_includes s pat \<longleftrightarrow> sublist pat s"
  by (induction s) (simp_all add: sublist_Cons_right)

lemma isAllowableError_iff:
  "isAllowableError err \<longleftrightarrow>
     (\<exists>a \<in> set allowableErrors. sublist a (message err) \<or> code err = Some a)"
  by (simp add: isAllowableError_def list_ex_iff str_includes_sublist)

text \<open>
  C7. When both parsers fail, the result is valid exactly when the message of the primary
  or of the fallback error contains, or its code is, one of sixteen signatures: HTTP 403,
  429 and 503 in the phrasings "Response code" and "Status code"; the DNS, connection and
  timeout signatures; and the three messages of the XML parser. A valid result carries a
  warning in which both messages occur and the placeholder feed info; an invalid one
  carries an error text that starts with "Both parsers failed" and in which both messages
  occur.
\<close>

theorem validateFeedUrl_both_parsers_fail:
  assumes "v = validateFeedUrl u (Inl primaryError) (Inl fallbackError)"
  shows "(valid v \<longleftrightarrow>
           (\<exists>a \<in> set [''Response code 403'', ''Status code 403'',
                    ''Response code 429'', ''Status code 429'',
                    ''Response code 503'', ''Status code 503'',
                    ''ETIMEDOUT'', ''ENOTFOUND'', ''ECONNREFUSED'',
                    ''socket hang up'', ''timeout'', ''Request timeout'',
                    ''getaddrinfo ENOTFOUND'',
                    ''Non-whitespace before first tag'',
                    ''Invalid character in entity name'',
                    ''Unexpected end of input''].
              sublist a (message primaryError) \<or> code primaryError = Some a \<or>
              sublist a (message fallbackError) \<or> code fallbackError = Some a)) \<and>
         (valid v \<longrightarrow>
           (\<exists>w. warning v = Some w \<and> sublist (message primaryError) w
                \<and> sublist (message fallbackError) w) \<and>
           error v = None \<and>
           feedInfo v = Some \<lparr>info_title = Some ''Feed Title (Unable to fetch)'',
                              info_description =
                                Some ''Description will be updated when feed becomes accessible'',
                              info_link = Some u, info_language = ''en''\<rparr>) \<and>
         (\<not> valid v \<longrightarrow>
           (\<exists>e. error v = Some e \<and> prefix ''Both parsers failed'' e
                \<and> sublist (message primaryError) e \<and> sublist (message fallbackError) e) \<and>
           warning v = None \<and> feedInfo v = None)"
proof (intro conjI impI)
  let ?ok = "isAllowableError primaryError \<or> isAllowableError fallbackError"
  let ?pm = "message primaryError" and ?fm = "message fallbackError"
  have v: "valid v = ?ok"
    using assms by (simp add: validateFeedUrl_def)
  show "valid v \<longleftrightarrow>
           (\<exists>a \<in> set [''Response code 403'', ''Status code 403'',
                    ''Response code 429'', ''Status code 429'',
                    ''Response code 503'', ''Status code 503'',
                    ''ETIMEDOUT'', ''ENOTFOUND'', ''ECONNREFUSED'',
                    ''socket hang up'', ''timeout'', ''Request timeout'',
                    ''getaddrinfo ENOTFOUND'',
                    ''Non-whitespace before first tag'',
                    ''Invalid character in entity name'',
                    ''Unexpected end of input''].
              sublist a (message primaryError) \<or> code primaryError = Some a \<or>
              sublist a (message fallbackError) \<or> code fallbackError = Some a)"
    unfolding v isAllowableError_iff allowableErrors_def by blast
  have both: "sublist ?pm (a @ ?pm @ b @ ?fm) \<and> sublist ?fm (a @ ?pm @ b @ ?fm)" for a b
    using sublist_appendI[of ?pm a "b @ ?fm"] sublist_append_leftI[of ?fm "a @ ?pm @ b"]
    by simp
  {
    assume "valid v"
    then have ok: ?ok by (simp add: v)
    define w where "w = ''Feed may not be accessible right now (both parsers failed), but will be created anyway. Primary: ''
                        @ ?pm @ '', Fallback: '' @ ?fm"
    have "warning v = Some w"
      using ok assms by (simp add: validateFeedUrl_def w_def)
    moreover have "sublist ?pm w \<and> sublist ?fm w"
      unfolding w_def by (rule both)
    ultimately
    show "\<exists>w. warning v = Some w \<and> sublist (message primaryError) w
                \<and> sublist (message fallbackError) w"
      by blast
    show "error v = None"
      using ok assms by (simp add: validateFeedUrl_def)
    show "feedInfo v = Some \<lparr>info_title = Some ''Feed Title (Unable to fetch)'',
                              info_description =
                                Some ''Description will be updated when feed becomes accessible'',
                              info_link = Some u, info_language = ''en''\<rparr>"
      using ok assms by (simp add: validateFeedUrl_def)
  }
  {
    assume "\<not> valid v"
    then have nok: "\<not> ?ok" by (simp add: v)
    define e where "e = ''Both parsers failed. Primary: '' @ ?pm @ '', Fallback: '' @ ?fm"
    have "error v = Some e"
      using nok assms by (simp add: validateFeedUrl_def e_def)
    moreover have "sublist ?pm e \<and> sublist ?fm e"
      unfolding e_def by (rule both)
    moreover have "prefix ''Both parsers failed'' e"
      by (simp add: e_def)
    ultimately
    show "\<exists>e. error v = Some e \<and> prefix ''Both parsers failed'' e
                \<and> sublist (message primaryError) e \<and> sublist (message fallbackError) e"
      by blast
    show "warning v = None"
      using nok assms by (simp add: validateFeedUrl_def)
    show "feedInfo v = None"
      using nok assms by (simp add: validateFeedUrl_def)
  }
qed

text \<open>
  The scenario of the specification: both parsers answer with HTTP 429, and the feed is
  accepted with the warning and the placeholder. So is it when only one of the two errors
  matches: a 403 in the other phrasing inside a longer message, a 503, a network error
  recognised by its code alone, a message of the XML parser. With a 404 and a body that
  is no feed it is refused, as it is when the code is a signature in lower case.
\<close>

theorem validateFeedUrl_both_parsers_fail_witness:
  "validateFeedUrl ''https://example.com/rss''
      (Inl (Error ''Status code 429'')) (Inl (Error ''Status code 429''))
     = \<lparr>valid = True,
        warning = Some ''Feed may not be accessible right now (both parsers failed), but will be created anyway. Primary: Status code 429, Fallback: Status code 429'',
        error = None,
        feedInfo = Some \<lparr>info_title = Some ''Feed Title (Unable to fetch)'',
                          info_description =
                            Some ''Description will be updated when feed becomes accessible'',
                          info_link = Some ''https://example.com/rss'',
                          info_language = ''en''\<rparr>\<rparr> \<and>
   valid (validateFeedUrl ''https://example.com/rss''
            (Inl (Error ''Request failed: Response code 403 (Forbidden)''))
            (Inl (Error ''Not a feed''))) \<and>
   valid (validateFeedUrl ''https://example.com/rss''
            (Inl (Error ''Status code 404'')) (Inl (Error ''Status code 503''))) \<and>
   valid (validateFeedUrl ''https://example.com/rss''
            (Inl (Error ''Status code 404''))
            (Inl \<lparr>name = ''Error'', message = ''connect failed'', code = Some ''ETIMEDOUT''\<rparr>)) \<and>
   valid (validateFeedUrl ''https://example.com/rss''
            (Inl (Error ''Unexpected end of input at line 3''))
            (Inl (Error ''Not a feed''))) \<and>
   \<not> valid (validateFeedUrl ''https://example.com/rss''
            (Inl (Error ''Status code 404'')) (Inl (Error ''Not a feed''))) \<and>
   \<not> valid (validateFeedUrl ''https://example.com/rss''
            (Inl (Error ''Status code 404''))
            (Inl \<lparr>name = ''Error'', message = ''connect failed'', code = Some ''etimedout''\<rparr>)) \<and>
   error (validateFeedUrl ''https://example.com/rss''
            (Inl (Error ''Status code 404'')) (Inl (Error ''Not a feed'')))
     = Some ''Both parsers failed. Primary: Status code 404, Fallback: Not a feed''"
proof -
  let ?u = "''https://example.com/rss''"
  note ev = Error_def str_includes_sublist[symmetric]
  have a: "validateFeedUrl ?u (Inl (Error ''Status code 429'')) (Inl (Error ''Status code 429''))
     = \<lparr>valid = True,
        warning = Some ''Feed may not be accessible right now (both parsers failed), but will be created anyway. Primary: Status code 429, Fallback: Status code 429'',
        error = None,
        feedInfo = Some \<lparr>info_title = Some ''Feed Title (Unable to fetch)'',
                          info_description =
                            Some ''Description will be updated when feed becomes accessible'',
                          info_link = Some ?u, info_language = ''en''\<rparr>\<rparr>"
    by code_simp
  have b: "valid (validateFeedUrl ?u
            (Inl (Error ''Request failed: Response code 403 (Forbidden)''))
            (Inl (Error ''Not a feed'')))"
    using validateFeedUrl_both_parsers_fail[OF refl, of ?u
        "Error ''Request failed: Response code 403 (Forbidden)''" "Error ''Not a feed''"]
    by (simp add: ev)
  have c: "valid (validateFeedUrl ?u (Inl (Error ''Status code 404'')) (Inl (Error ''Status code 503'')))"
    using validateFeedUrl_both_parsers_fail[OF refl, of ?u
        "Error ''Status code 404''" "Error ''Status code 503''"]
    by (simp add: ev)
  have d: "valid (validateFeedUrl ?u (Inl (Error ''Status code 404''))
            (Inl \<lparr>name = ''Error'', message = ''connect failed'', code = Some ''ETIMEDOUT''\<rparr>))"
    using validateFeedUrl_both_parsers_fail[OF refl, of ?u "Error ''Status code 404''"
        "\<lparr>name = ''Error'', message = ''connect failed'', code = Some ''ETIMEDOUT''\<rparr>"]
    by (simp add: ev)
  have e: "valid (validateFeedUrl ?u (Inl (Error ''Unexpected end of input at line 3''))
            (Inl (Error ''Not a feed'')))"
    using validateFeedUrl_both_parsers_fail[OF refl, of ?u
        "Error ''Unexpected end of input at line 3''" "Error ''Not a feed''"]
    by (simp add: ev)
  have f: "\<not> valid (validateFeedUrl ?u (Inl (Error ''Status code 404'')) (Inl (Error ''Not a feed'')))"
    using validateFeedUrl_both_parsers_fail[OF refl, of ?u
        "Error ''Status code 404''" "Error ''Not a feed''"]
    by (simp add: ev)
  have g: "\<not> valid (validateFeedUrl ?u (Inl (Error ''Status code 404''))
            (Inl \<lparr>name = ''Error'', message = ''connect failed'', code = Some ''etimedout''\<rparr>))"
    using validateFeedUrl_both_parsers_fail[OF refl, of ?u "Error ''Status code 404''"
        "\<lparr>name = ''Error'', message = ''connect failed'', code = Some ''etimedout''\<rparr>"]
    by (simp add: ev)
  have h: "error (validateFeedUrl ?u (Inl (Error ''Status code 404'')) (Inl (Error ''Not a feed'')))
     = Some ''Both parsers failed. Primary: Status code 404, Fallback: Not a feed''"
    by code_simp
  from a b c d e f g h show ?thesis by blast
qed

section \<open>Properties of the duplicate check\<close>

lemma create_Inr_fields:
  assumes "create isU st d fid now = Inr (a, st')"
  shows "link a = link d" "guid a = guid d" "title a = title d" "feedId a = fid"
    "rawContent a = rawContent d" "rows st' = rows st @ [a]" "feedIds st' = feedIds st"
  using assms
  by (auto simp: create_def new_row_def Let_def split: option.splits if_splits)

lemma create_isl_iff:
  "isl (create isU st d fid now) \<longleftrightarrow>
     pubDate d = None \<or> \<not> validate isU d \<or> \<not> fits_columns d \<or>
     (\<exists>r \<in> set (rows st). link r = link d) \<or>
     (\<exists>r \<in> set (rows st). feedId r = fid \<and> guid r = guid d) \<or>
     fid \<notin> set (feedIds st)"
  by (cases "pubDate d") (auto simp: create_def Let_def)

lemma create_isl_now: "isl (create isU st d fid now) = isl (create isU st d fid now')"
  by (simp only: create_isl_iff)

lemma duplicateReason_None_iff:
  "duplicateReason s d = None \<longleftrightarrow>
     \<not> (link d \<noteq> [] \<and> link d \<in> existingLinks s) \<and>
     \<not> (guid d \<noteq> [] \<and> guid d \<in> existingGuids s) \<and>
     \<not> (title d \<noteq> [] \<and> title d \<in> existingTitles s)"
  by (simp add: duplicateReason_def)

lemma lookup_set_snoc:
  "lookup_set f (xs @ ys @ [a]) = add_truthy (f a) (lookup_set f (xs @ ys))"
  by (auto simp: lookup_set_def add_truthy_def)

lemma lookup_set_snoc1:
  "lookup_set f (xs @ [a]) = add_truthy (f a) (lookup_set f xs)"
  by (auto simp: lookup_set_def add_truthy_def)

lemma lookup_set_image: "lookup_set f xs = {v \<in> f ` set xs. v \<noteq> []}"
  by (auto simp: lookup_set_def)

lemma lookup_set_mono:
  "set xs \<subseteq> set ys \<Longrightarrow> lookup_set f xs \<subseteq> lookup_set f ys"
  by (auto simp: lookup_set_def)

lemma dupe_loop_append:
  "dupe_loop isU fid now s (xs @ ys) = dupe_loop isU fid now (dupe_loop isU fid now s xs) ys"
  by (induction xs arbitrary: s) simp_all

text \<open>What one iteration and the whole loop add to the table and to \<^verbatim>\<open>newArticles\<close>.\<close>

lemma process_article_rows:
  "\<exists>added. rows (db (process_article isU fid now s d)) = rows (db s) @ added \<and>
           newArticles (process_article isU fid now s d) = newArticles s @ added \<and>
           (\<forall>a \<in> set added. link a = link d \<and> rawContent a = rawContent d \<and> feedId a = fid)"
proof (cases "duplicateReason s d")
  case (Some reason)
  then show ?thesis by (simp add: process_article_def)
next
  case None
  show ?thesis
  proof (cases "create isU (db s) d fid now")
    case (Inl e)
    with None show ?thesis by (simp add: process_article_def)
  next
    case (Inr p)
    obtain a st' where p: "p = (a, st')" by (cases p)
    note f = create_Inr_fields[OF Inr[unfolded p]]
    from None Inr p show ?thesis
      by (simp add: process_article_def f)
  qed
qed

lemma dupe_loop_rows:
  "\<exists>added. rows (db (dupe_loop isU fid now s ds)) = rows (db s) @ added \<and>
           newArticles (dupe_loop isU fid now s ds) = newArticles s @ added \<and>
           (\<forall>a \<in> set added. \<exists>d \<in> set ds.
               link a = link d \<and> rawContent a = rawContent d \<and> feedId a = fid)"
proof (induction ds arbitrary: s)
  case Nil
  then show ?case by simp
next
  case (Cons d ds)
  let ?s1 = "process_article isU fid now s d"
  obtain a1 where a1: "rows (db ?s1) = rows (db s) @ a1" "newArticles ?s1 = newArticles s @ a1"
    "\<forall>a \<in> set a1. link a = link d \<and> rawContent a = rawContent d \<and> feedId a = fid"
    using process_article_rows[of isU fid now s d] by blast
  obtain a2 where a2: "rows (db (dupe_loop isU fid now ?s1 ds)) = rows (db ?s1) @ a2"
    "newArticles (dupe_loop isU fid now ?s1 ds) = newArticles ?s1 @ a2"
    "\<forall>a \<in> set a2. \<exists>d \<in> set ds. link a = link d \<and> rawContent a = rawContent d \<and> feedId a = fid"
    using Cons.IH[of ?s1] by blast
  show ?case
    apply (rule exI[of _ "a1 @ a2"])
    using a1 a2 by auto
qed

lemma bulk_rows:
  "\<exists>added. rows (db (bulkCreateSafeWithDupeCheck isU now st ds fid)) = rows st @ added \<and>
           newArticles (bulkCreateSafeWithDupeCheck isU now st ds fid) = added \<and>
           (\<forall>a \<in> set added. \<exists>d \<in> set ds.
               link a = link d \<and> rawContent a = rawContent d \<and> feedId a = fid)"
proof (cases "ds = []")
  case True
  then show ?thesis by (simp add: bulkCreateSafeWithDupeCheck_def)
next
  case False
  then show ?thesis
    using dupe_loop_rows[of isU fid now "init_state st fid" ds]
    by (simp add: bulkCreateSafeWithDupeCheck_def init_state_def Let_def)
qed

lemma newArticles_grow_loop:
  "set (newArticles s) \<subseteq> set (newArticles (dupe_loop isU fid now s ds))"
  using dupe_loop_rows[of isU fid now s ds] by auto

lemma rows_grow_loop: "set (rows (db s)) \<subseteq> set (rows (db (dupe_loop isU fid now s ds)))"
  using dupe_loop_rows[of isU fid now s ds] by auto

lemma feedIds_step: "feedIds (db (process_article isU fid now s d)) = feedIds (db s)"
proof (cases "duplicateReason s d")
  case (Some reason)
  then show ?thesis by (simp add: process_article_def)
next
  case None
  show ?thesis
  proof (cases "create isU (db s) d fid now")
    case (Inl e)
    with None show ?thesis by (simp add: process_article_def)
  next
    case (Inr p)
    obtain a st' where p: "p = (a, st')" by (cases p)
    note f = create_Inr_fields[OF Inr[unfolded p]]
    from None Inr p show ?thesis
      by (simp add: process_article_def f)
  qed
qed

lemma feedIds_loop: "feedIds (db (dupe_loop isU fid now s ds)) = feedIds (db s)"
  by (induction ds arbitrary: s) (simp_all add: feedIds_step)

lemma console_step:
  "\<exists>lines. console (process_article isU fid now s d) = console s @ lines"
  by (auto simp: process_article_def split: option.splits sum.splits)

lemma console_loop:
  "\<exists>lines. console (dupe_loop isU fid now s ds) = console s @ lines"
proof (induction ds arbitrary: s)
  case Nil
  then show ?case by simp
next
  case (Cons d ds)
  obtain l1 where "console (process_article isU fid now s d) = console s @ l1"
    using console_step by blast
  moreover obtain l2 where "console (dupe_loop isU fid now (process_article isU fid now s d) ds)
      = console (process_article isU fid now s d) @ l2"
    using Cons.IH by blast
  ultimately show ?case by simp
qed

text \<open>The lookup sets follow the articles created so far.\<close>

lemma sets_track_init: "sets_track st fid (init_state st fid)"
  by (simp add: sets_track_def init_state_def Let_def)

lemma sets_track_step:
  assumes "sets_track st fid s"
  shows "sets_track st fid (process_article isU fid now s d)"
proof (cases "duplicateReason s d")
  case (Some reason)
  with assms show ?thesis by (simp add: process_article_def sets_track_def)
next
  case None
  show ?thesis
  proof (cases "create isU (db s) d fid now")
    case (Inl e)
    with None assms show ?thesis by (simp add: process_article_def sets_track_def)
  next
    case (Inr p)
    obtain a st' where p: "p = (a, st')" by (cases p)
    note f = create_Inr_fields[OF Inr[unfolded p]]
    from None Inr p assms show ?thesis
      by (simp add: process_article_def sets_track_def f lookup_set_snoc)
  qed
qed

lemma sets_track_loop:
  "sets_track st fid s \<Longrightarrow> sets_track st fid (dupe_loop isU fid now s ds)"
  by (induction ds arbitrary: s) (simp_all add: sets_track_step)

text \<open>
  C2 (as amended). Let \<open>s\<close> be the state of the loop when candidate \<open>d\<close> is reached, after
  the candidates \<open>pre\<close>. The three lookup sets of \<open>s\<close> hold exactly the non-empty links,
  GUIDs and titles of the feed's existing articles and of the articles created so far in
  this batch. The candidate is skipped as a duplicate link if its non-empty link is in the
  link set, else as a duplicate GUID, else as a duplicate title; else its insert is
  attempted, and its non-empty link, GUID and title enter the sets when the insert
  succeeds and only then. Hence a later candidate of the batch that shares a non-empty
  link, GUID or title with an earlier candidate that was created is skipped.
\<close>

theorem layered_duplicate_filter:
  fixes isU :: "string \<Rightarrow> bool" and fid :: nat and now :: int and st :: store
    and pre post :: "candidate list" and d :: candidate
  defines "s \<equiv> dupe_loop isU fid now (init_state st fid) pre"
  defines "s' \<equiv> process_article isU fid now s d"
  shows "bulkCreateSafeWithDupeCheck isU now st (pre @ d # post) fid = dupe_loop isU fid now s' post \<and>
        (existingLinks s = {v \<in> link ` set (findAll_feed st fid @ newArticles s). v \<noteq> []} \<and>
         existingGuids s = {v \<in> guid ` set (findAll_feed st fid @ newArticles s). v \<noteq> []} \<and>
         existingTitles s = {v \<in> title ` set (findAll_feed st fid @ newArticles s). v \<noteq> []}) \<and>
        (link d \<noteq> [] \<and> link d \<in> existingLinks s \<longrightarrow>
           s' = s\<lparr>console := console s @ [SkippedDuplicate ''duplicate link'' (title d)]\<rparr>) \<and>
        (\<not> (link d \<noteq> [] \<and> link d \<in> existingLinks s) \<and>
         guid d \<noteq> [] \<and> guid d \<in> existingGuids s \<longrightarrow>
           s' = s\<lparr>console := console s @ [SkippedDuplicate ''duplicate guid'' (title d)]\<rparr>) \<and>
        (\<not> (link d \<noteq> [] \<and> link d \<in> existingLinks s) \<and>
         \<not> (guid d \<noteq> [] \<and> guid d \<in> existingGuids s) \<and>
         title d \<noteq> [] \<and> title d \<in> existingTitles s \<longrightarrow>
           s' = s\<lparr>console := console s @ [SkippedDuplicate ''duplicate title'' (title d)]\<rparr>) \<and>
        (\<not> (link d \<noteq> [] \<and> link d \<in> existingLinks s) \<and>
         \<not> (guid d \<noteq> [] \<and> guid d \<in> existingGuids s) \<and>
         \<not> (title d \<noteq> [] \<and> title d \<in> existingTitles s) \<longrightarrow>
           (case create isU (db s) d fid now of
              Inr (a, db') \<Rightarrow>
                newArticles s' = newArticles s @ [a] \<and> db s' = db' \<and>
                existingLinks s' = (if link d \<noteq> [] then insert (link d) (existingLinks s) else existingLinks s) \<and>
                existingGuids s' = (if guid d \<noteq> [] then insert (guid d) (existingGuids s) else existingGuids s) \<and>
                existingTitles s' = (if title d \<noteq> [] then insert (title d) (existingTitles s) else existingTitles s)
            | Inl e \<Rightarrow>
                newArticles s' = newArticles s \<and> db s' = db s \<and>
                existingLinks s' = existingLinks s \<and> existingGuids s' = existingGuids s \<and>
                existingTitles s' = existingTitles s)) \<and>
        (\<forall>a mid e. newArticles s' = newArticles s @ [a] \<and>
           ((link e \<noteq> [] \<and> link e = link d) \<or> (guid e \<noteq> [] \<and> guid e = guid d) \<or>
            (title e \<noteq> [] \<and> title e = title d)) \<longrightarrow>
           newArticles (process_article isU fid now (dupe_loop isU fid now s' mid) e)
             = newArticles (dupe_loop isU fid now s' mid))"
proof -
  have p1: "bulkCreateSafeWithDupeCheck isU now st (pre @ d # post) fid = dupe_loop isU fid now s' post"
    by (simp add: bulkCreateSafeWithDupeCheck_def dupe_loop_append s_def s'_def)
  have tr: "sets_track st fid s"
    unfolding s_def using sets_track_init by (rule sets_track_loop)
  then have p2: "existingLinks s = {v \<in> link ` set (findAll_feed st fid @ newArticles s). v \<noteq> []} \<and>
         existingGuids s = {v \<in> guid ` set (findAll_feed st fid @ newArticles s). v \<noteq> []} \<and>
         existingTitles s = {v \<in> title ` set (findAll_feed st fid @ newArticles s). v \<noteq> []}"
    by (simp only: sets_track_def lookup_set_image)
  have p3: "link d \<noteq> [] \<and> link d \<in> existingLinks s \<longrightarrow>
           s' = s\<lparr>console := console s @ [SkippedDuplicate ''duplicate link'' (title d)]\<rparr>"
    by (simp add: s'_def process_article_def duplicateReason_def)
  have p4: "\<not> (link d \<noteq> [] \<and> link d \<in> existingLinks s) \<and>
         guid d \<noteq> [] \<and> guid d \<in> existingGuids s \<longrightarrow>
           s' = s\<lparr>console := console s @ [SkippedDuplicate ''duplicate guid'' (title d)]\<rparr>"
    by (auto simp: s'_def process_article_def duplicateReason_def)
  have p5: "\<not> (link d \<noteq> [] \<and> link d \<in> existingLinks s) \<and>
         \<not> (guid d \<noteq> [] \<and> guid d \<in> existingGuids s) \<and>
         title d \<noteq> [] \<and> title d \<in> existingTitles s \<longrightarrow>
           s' = s\<lparr>console := console s @ [SkippedDuplicate ''duplicate title'' (title d)]\<rparr>"
    by (auto simp: s'_def process_article_def duplicateReason_def)
  have p6: "\<not> (link d \<noteq> [] \<and> link d \<in> existingLinks s) \<and>
         \<not> (guid d \<noteq> [] \<and> guid d \<in> existingGuids s) \<and>
         \<not> (title d \<noteq> [] \<and> title d \<in> existingTitles s) \<longrightarrow>
           (case create isU (db s) d fid now of
              Inr (a, db') \<Rightarrow>
                newArticles s' = newArticles s @ [a] \<and> db s' = db' \<and>
                existingLinks s' = (if link d \<noteq> [] then insert (link d) (existingLinks s) else existingLinks s) \<and>
                existingGuids s' = (if guid d \<noteq> [] then insert (guid d) (existingGuids s) else existingGuids s) \<and>
                existingTitles s' = (if title d \<noteq> [] then insert (title d) (existingTitles s) else existingTitles s)
            | Inl e \<Rightarrow>
                newArticles s' = newArticles s \<and> db s' = db s \<and>
                existingLinks s' = existingLinks s \<and> existingGuids s' = existingGuids s \<and>
                existingTitles s' = existingTitles s)"
  proof
    assume "\<not> (link d \<noteq> [] \<and> link d \<in> existingLinks s) \<and>
         \<not> (guid d \<noteq> [] \<and> guid d \<in> existingGuids s) \<and>
         \<not> (title d \<noteq> [] \<and> title d \<in> existingTitles s)"
    then have n: "duplicateReason s d = None"
      by (simp add: duplicateReason_None_iff)
    show "case create isU (db s) d fid now of
              Inr (a, db') \<Rightarrow>
                newArticles s' = newArticles s @ [a] \<and> db s' = db' \<and>
                existingLinks s' = (if link d \<noteq> [] then insert (link d) (existingLinks s) else existingLinks s) \<and>
                existingGuids s' = (if guid d \<noteq> [] then insert (guid d) (existingGuids s) else existingGuids s) \<and>
                existingTitles s' = (if title d \<noteq> [] then insert (title d) (existingTitles s) else existingTitles s)
            | Inl e \<Rightarrow>
                newArticles s' = newArticles s \<and> db s' = db s \<and>
                existingLinks s' = existingLinks s \<and> existingGuids s' = existingGuids s \<and>
                existingTitles s' = existingTitles s"
      using n by (simp add: s'_def process_article_def add_truthy_def split: sum.splits)
  qed
  have p7: "\<forall>a mid e. newArticles s' = newArticles s @ [a] \<and>
           ((link e \<noteq> [] \<and> link e = link d) \<or> (guid e \<noteq> [] \<and> guid e = guid d) \<or>
            (title e \<noteq> [] \<and> title e = title d)) \<longrightarrow>
           newArticles (process_article isU fid now (dupe_loop isU fid now s' mid) e)
             = newArticles (dupe_loop isU fid now s' mid)"
  proof (intro allI impI)
    fix a :: article and mid :: "candidate list" and e :: candidate
    assume h: "newArticles s' = newArticles s @ [a] \<and>
           ((link e \<noteq> [] \<and> link e = link d) \<or> (guid e \<noteq> [] \<and> guid e = guid d) \<or>
            (title e \<noteq> [] \<and> title e = title d))"
    let ?t = "dupe_loop isU fid now s' mid"
    have ins: "\<exists>db'. create isU (db s) d fid now = Inr (a, db')"
    proof (cases "duplicateReason s d")
      case (Some reason)
      then have "newArticles s' = newArticles s" by (simp add: s'_def process_article_def)
      with h show ?thesis by simp
    next
      case None
      show ?thesis
      proof (cases "create isU (db s) d fid now")
        case (Inl err)
        with None have "newArticles s' = newArticles s" by (simp add: s'_def process_article_def)
        with h show ?thesis by simp
      next
        case (Inr p)
        obtain a' db' where p: "p = (a', db')" by (cases p)
        with None Inr have "newArticles s' = newArticles s @ [a']"
          by (simp add: s'_def process_article_def)
        with h have "a' = a" by simp
        with Inr p show ?thesis by simp
      qed
    qed
    then obtain db' where c: "create isU (db s) d fid now = Inr (a, db')" by blast
    note f = create_Inr_fields[OF c]
    have "a \<in> set (newArticles s')" using h by simp
    then have a: "a \<in> set (findAll_feed st fid @ newArticles ?t)"
      using newArticles_grow_loop[of s' isU fid now mid] by auto
    have tr': "sets_track st fid ?t"
      unfolding s'_def by (intro sets_track_loop sets_track_step tr)
    have inL: "link a \<noteq> [] \<Longrightarrow> link a \<in> existingLinks ?t"
      and inG: "guid a \<noteq> [] \<Longrightarrow> guid a \<in> existingGuids ?t"
      and inT: "title a \<noteq> [] \<Longrightarrow> title a \<in> existingTitles ?t"
      using tr' a unfolding sets_track_def lookup_set_image by blast+
    have "duplicateReason ?t e \<noteq> None"
    proof -
      from h consider "link e \<noteq> [] \<and> link e = link d" | "guid e \<noteq> [] \<and> guid e = guid d"
        | "title e \<noteq> [] \<and> title e = title d" by blast
      then show ?thesis
      proof cases
        case 1
        then have "link e \<in> existingLinks ?t" using inL f(1) by auto
        with 1 show ?thesis unfolding duplicateReason_None_iff by blast
      next
        case 2
        then have "guid e \<in> existingGuids ?t" using inG f(2) by auto
        with 2 show ?thesis unfolding duplicateReason_None_iff by blast
      next
        case 3
        then have "title e \<in> existingTitles ?t" using inT f(3) by auto
        with 3 show ?thesis unfolding duplicateReason_None_iff by blast
      qed
    qed
    then show "newArticles (process_article isU fid now ?t e) = newArticles ?t"
      by (auto simp: process_article_def)
  qed
  show ?thesis
    by (rule conjI[OF p1 conjI[OF p2 conjI[OF p3 conjI[OF p4 conjI[OF p5 conjI[OF p6 p7]]]]]])
qed

text \<open>
  C2 read to the letter has every candidate that passes the three checks add its link,
  GUID and title. Here another feed already holds the first candidate's link: the first
  candidate passes the checks, its insert is refused by the unique index on \<^verbatim>\<open>link\<close>, its
  title is not added, and the second candidate, which has the same title, is created.
\<close>

theorem layered_duplicate_filter_counterexample:
  "duplicateReason (init_state other_feed_store 1) conflicting = None \<and>
   title later_same_title = title conflicting \<and> title conflicting \<noteq> [] \<and>
   title conflicting \<notin> existingTitles
      (process_article (isUrl example_env) 1 9 (init_state other_feed_store 1) conflicting) \<and>
   map link (newArticles (bulkCreateSafeWithDupeCheck (isUrl example_env) 9 other_feed_store
                            [conflicting, later_same_title] 1)) = [''https://x.example/2'']"
  by code_simp

text \<open>
  On an empty table the first candidate is created, and the second, which has the same
  title, is then skipped.
\<close>

theorem layered_duplicate_filter_witness:
  "newArticles (process_article (isUrl example_env) 1 9 (init_state empty_store 1) conflicting)
     = newArticles (init_state empty_store 1) @
       [\<lparr>title = ''Same title'', link = ''https://x.example/1'', pubDate = 5,
         rawContent = ''Body'', author = [], guid = ''g1'', categories = [],
         rowid = 1, feedId = 1, createdAt = 9, updatedAt = 9\<rparr>] \<and>
   title later_same_title \<noteq> [] \<and> title later_same_title = title conflicting \<and>
   newArticles (process_article (isUrl example_env) 1 9
                  (process_article (isUrl example_env) 1 9 (init_state empty_store 1) conflicting)
                  later_same_title)
     = newArticles (process_article (isUrl example_env) 1 9 (init_state empty_store 1) conflicting)"
proof -
  let ?U = "isUrl example_env"
  let ?row = "\<lparr>title = ''Same title'', link = ''https://x.example/1'', pubDate = 5,
         rawContent = ''Body'', author = [], guid = ''g1'', categories = [],
         rowid = 1, feedId = 1, createdAt = 9, updatedAt = 9\<rparr>"
  have created: "newArticles (process_article ?U 1 9 (init_state empty_store 1) conflicting)
     = newArticles (init_state empty_store 1) @ [?row]"
    by code_simp
  have same: "title later_same_title \<noteq> [] \<and> title later_same_title = title conflicting"
    by code_simp
  note inst = layered_duplicate_filter[where isU = "?U" and fid = 1 and now = 9
      and st = empty_store and pre = "[]" and d = conflicting and post = "[]"]
  note later = inst[THEN conjunct2, THEN conjunct2, THEN conjunct2, THEN conjunct2,
      THEN conjunct2, THEN conjunct2, rule_format, of ?row later_same_title "[]"]
  have "newArticles (process_article ?U 1 9
                  (process_article ?U 1 9 (init_state empty_store 1) conflicting)
                  later_same_title)
     = newArticles (process_article ?U 1 9 (init_state empty_store 1) conflicting)"
    using later[unfolded dupe_loop.simps] created same by blast
  with created same show ?thesis by blast
qed

section \<open>Properties of the per-insert \<^verbatim>\<open>catch\<close>\<close>

text \<open>
  C9. Let \<open>s\<close> be the state of the loop when candidate \<open>d\<close> is reached. If \<open>d\<close> passes the
  three checks and \<^verbatim>\<open>create\<close> throws an error that the handler recognises as a uniqueness
  violation, the iteration changes nothing but the console, which gets the line "Skipped
  duplicate article (DB constraint)"; the loop goes on with the remaining candidates, the
  method returns its list, the line is in the console at the end, and the list consists
  of the articles created before \<open>d\<close> and of articles created from later candidates.
\<close>

theorem unique_conflict_swallowed:
  fixes isU :: "string \<Rightarrow> bool" and fid :: nat and now :: int and st :: store
    and pre post :: "candidate list" and d :: candidate
  defines "s \<equiv> dupe_loop isU fid now (init_state st fid) pre"
  assumes passes: "duplicateReason s d = None"
      and rejects: "create isU (db s) d fid now = Inl e"
      and unique: "name e = ''SequelizeUniqueConstraintError''
                   \<or> str_includes (message e) ''duplicate''
                   \<or> str_includes (message e) ''unique constraint''"
  shows "process_article isU fid now s d = s\<lparr>console := console s @ [SkippedDbConstraint (title d)]\<rparr> \<and>
         bulkCreateSafeWithDupeCheck isU now st (pre @ d # post) fid =
           dupe_loop isU fid now (s\<lparr>console := console s @ [SkippedDbConstraint (title d)]\<rparr>) post \<and>
         SkippedDbConstraint (title d)
           \<in> set (console (bulkCreateSafeWithDupeCheck isU now st (pre @ d # post) fid)) \<and>
         (\<exists>later. newArticles (bulkCreateSafeWithDupeCheck isU now st (pre @ d # post) fid)
                    = newArticles s @ later \<and>
                  (\<forall>a \<in> set later. \<exists>c \<in> set post. link a = link c \<and> rawContent a = rawContent c))"
proof -
  let ?s' = "s\<lparr>console := console s @ [SkippedDbConstraint (title d)]\<rparr>"
  have step: "process_article isU fid now s d = ?s'"
    using passes rejects unique by (simp add: process_article_def)
  have bulk: "bulkCreateSafeWithDupeCheck isU now st (pre @ d # post) fid = dupe_loop isU fid now ?s' post"
    by (simp add: bulkCreateSafeWithDupeCheck_def dupe_loop_append s_def[symmetric] step)
  obtain lines where "console (dupe_loop isU fid now ?s' post) = console ?s' @ lines"
    using console_loop by blast
  then have logged: "SkippedDbConstraint (title d) \<in> set (console (dupe_loop isU fid now ?s' post))"
    by simp
  obtain later where "newArticles (dupe_loop isU fid now ?s' post) = newArticles ?s' @ later"
    "\<forall>a \<in> set later. \<exists>c \<in> set post. link a = link c \<and> rawContent a = rawContent c \<and> feedId a = fid"
    using dupe_loop_rows[of isU fid now ?s' post] by blast
  then have "newArticles (dupe_loop isU fid now ?s' post) = newArticles s @ later \<and>
     (\<forall>a \<in> set later. \<exists>c \<in> set post. link a = link c \<and> rawContent a = rawContent c)"
    by auto
  then show ?thesis
    using step bulk logged by (simp only:) blast
qed

text \<open>
  Another feed holds the first candidate's link: the insert is refused, the conflict is
  logged, and the second candidate is still created and returned.
\<close>

theorem unique_conflict_swallowed_witness:
  "duplicateReason (init_state other_feed_store 1) conflicting = None \<and>
   create (isUrl example_env) other_feed_store conflicting 1 9 = Inl SequelizeUniqueConstraintError \<and>
   SkippedDbConstraint ''Same title''
     \<in> set (console (bulkCreateSafeWithDupeCheck (isUrl example_env) 9 other_feed_store
                        [conflicting, later_same_title] 1)) \<and>
   map link (newArticles (bulkCreateSafeWithDupeCheck (isUrl example_env) 9 other_feed_store
                            [conflicting, later_same_title] 1)) = [''https://x.example/2'']"
proof -
  let ?U = "isUrl example_env"
  have passes: "duplicateReason (dupe_loop ?U 1 9 (init_state other_feed_store 1) []) conflicting = None"
    by code_simp
  have rejects: "create ?U (db (dupe_loop ?U 1 9 (init_state other_feed_store 1) []))
                   conflicting 1 9 = Inl SequelizeUniqueConstraintError"
    by code_simp
  have unique: "name SequelizeUniqueConstraintError = ''SequelizeUniqueConstraintError''
       \<or> str_includes (message SequelizeUniqueConstraintError) ''duplicate''
       \<or> str_includes (message SequelizeUniqueConstraintError) ''unique constraint''"
    by (simp add: SequelizeUniqueConstraintError_def)
  have t: "title conflicting = ''Same title''" by (simp add: conflicting_def)
  note inst = unique_conflict_swallowed[OF passes rejects unique, of "[later_same_title]"]
  have logged: "SkippedDbConstraint ''Same title''
     \<in> set (console (bulkCreateSafeWithDupeCheck ?U 9 other_feed_store
                        [conflicting, later_same_title] 1))"
    using inst[THEN conjunct2, THEN conjunct2, THEN conjunct1] by (simp add: t)
  have stored: "map link (newArticles (bulkCreateSafeWithDupeCheck ?U 9 other_feed_store
                            [conflicting, later_same_title] 1)) = [''https://x.example/2'']"
    by code_simp
  have passes': "duplicateReason (init_state other_feed_store 1) conflicting = None"
    by code_simp
  have rejects': "create ?U other_feed_store conflicting 1 9 = Inl SequelizeUniqueConstraintError"
    by code_simp
  from passes' rejects' logged stored show ?thesis by blast
qed


section \<open>Properties of \<^verbatim>\<open>fetchFeedArticles\<close>\<close>

lemma trim_nonempty_iff: "trim s \<noteq> [] \<longleftrightarrow> (\<exists>c \<in> set s. \<not> is_ws c)"
proof -
  have "(\<forall>x \<in> set (dropWhile is_ws s). is_ws x) \<longleftrightarrow> (\<forall>x \<in> set s. is_ws x)"
  proof
    assume d: "\<forall>x \<in> set (dropWhile is_ws s). is_ws x"
    have "set s = set (takeWhile is_ws s) \<union> set (dropWhile is_ws s)"
      by (metis set_append takeWhile_dropWhile_id)
    with d show "\<forall>x \<in> set s. is_ws x"
      by (auto dest: set_takeWhileD)
  next
    assume "\<forall>x \<in> set s. is_ws x"
    then show "\<forall>x \<in> set (dropWhile is_ws s). is_ws x"
      by (auto dest: set_dropWhileD)
  qed
  then show ?thesis
    by (simp add: trim_def dropWhile_eq_Nil_conv)
qed

lemma validArticles_valid:
  "d \<in> set (validArticles E now its) \<Longrightarrow>
     link d \<noteq> [] \<and> trim (link d) \<noteq> [] \<and> rawContent d \<noteq> [] \<and> trim (rawContent d) \<noteq> []"
  by (auto simp: validArticles_def hasLink_def hasDescription_def)

text \<open>
  C8. Every candidate that passes the filter has a link and a content that are not empty
  and not made of white space only; the candidates that pass the filter are what
  \<^verbatim>\<open>fetchFeedArticles\<close> hands to \<^verbatim>\<open>bulkCreateSafeWithDupeCheck\<close>; and \<^verbatim>\<open>fetchFeedArticles\<close>
  only ever appends rows with such a link and content to the table.
\<close>

theorem validity_filter:
  "(\<forall>d \<in> set (validArticles E now its).
       link d \<noteq> [] \<and> trim (link d) \<noteq> [] \<and> (\<exists>c \<in> set (link d). \<not> is_ws c) \<and>
       rawContent d \<noteq> [] \<and> trim (rawContent d) \<noteq> [] \<and> (\<exists>c \<in> set (rawContent d). \<not> is_ws c)) \<and>
   (parse_feed E (url f) = Inr (Some its) \<and> validArticles E now its \<noteq> [] \<longrightarrow>
      snd (snd (fetchFeedArticles E f now st))
        = db (bulkCreateSafeWithDupeCheck (isUrl E) now st (validArticles E now its) (feed_id f))) \<and>
   (\<exists>added. rows (snd (snd (fetchFeedArticles E f now st))) = rows st @ added \<and>
      (\<forall>a \<in> set added. link a \<noteq> [] \<and> trim (link a) \<noteq> [] \<and>
                        rawContent a \<noteq> [] \<and> trim (rawContent a) \<noteq> []))"
proof (intro conjI)
  show "parse_feed E (url f) = Inr (Some its) \<and> validArticles E now its \<noteq> [] \<longrightarrow>
      snd (snd (fetchFeedArticles E f now st))
        = db (bulkCreateSafeWithDupeCheck (isUrl E) now st (validArticles E now its) (feed_id f))"
    by (auto simp: fetchFeedArticles_def Let_def validArticles_def)
next
  show "\<forall>d \<in> set (validArticles E now its).
       link d \<noteq> [] \<and> trim (link d) \<noteq> [] \<and> (\<exists>c \<in> set (link d). \<not> is_ws c) \<and>
       rawContent d \<noteq> [] \<and> trim (rawContent d) \<noteq> [] \<and> (\<exists>c \<in> set (rawContent d). \<not> is_ws c)"
    using validArticles_valid[of _ E now its] trim_nonempty_iff by blast
next
  let ?st' = "snd (snd (fetchFeedArticles E f now st))"
  let ?good = "\<lambda>added. rows ?st' = rows st @ added \<and>
      (\<forall>a \<in> set added. link a \<noteq> [] \<and> trim (link a) \<noteq> [] \<and>
                        rawContent a \<noteq> [] \<and> trim (rawContent a) \<noteq> [])"
  show "\<exists>added. ?good added"
  proof (cases "\<exists>its. parse_feed E (url f) = Inr (Some its) \<and> its \<noteq> [] \<and> validArticles E now its \<noteq> []")
    case False
    then have "?st' = st"
      by (auto simp: fetchFeedArticles_def split: sum.splits option.splits)
    then have "?good []" by simp
    then show ?thesis ..
  next
    case True
    then obtain its where its: "parse_feed E (url f) = Inr (Some its)" "its \<noteq> []"
      "validArticles E now its \<noteq> []" by blast
    let ?B = "bulkCreateSafeWithDupeCheck (isUrl E) now st (validArticles E now its) (feed_id f)"
    have st': "?st' = db ?B"
      using its by (simp add: fetchFeedArticles_def Let_def)
    obtain added where ad: "rows (db ?B) = rows st @ added"
      "\<forall>a \<in> set added. \<exists>d \<in> set (validArticles E now its).
               link a = link d \<and> rawContent a = rawContent d \<and> feedId a = feed_id f"
      using bulk_rows[of "isUrl E" now st "validArticles E now its" "feed_id f"] by blast
    have "?good added"
      using ad st' validArticles_valid[of _ E now its] by fastforce
    then show ?thesis ..
  qed
qed

text \<open>
  Feed C has an item with a link and an item whose link is blank: one candidate passes,
  and the one row stored has its link.
\<close>

theorem validity_filter_witness:
  "validArticles example_env 7 [guid_only_item, blank_guid_item]
     = [\<lparr>title = ''Post'', link = ''https://c.example/p/1'', pubDate = Some 7,
         rawContent = ''Body'', author = [], guid = ''https://c.example/p/1'',
         categories = []\<rparr>] \<and>
   trim ''https://c.example/p/1'' \<noteq> [] \<and> trim ''Body'' \<noteq> [] \<and>
   map link (rows (snd (snd (fetchFeedArticles example_env feed_c 7 empty_store))))
     = [''https://c.example/p/1'']"
proof -
  have a: "validArticles example_env 7 [guid_only_item, blank_guid_item]
     = [\<lparr>title = ''Post'', link = ''https://c.example/p/1'', pubDate = Some 7,
         rawContent = ''Body'', author = [], guid = ''https://c.example/p/1'',
         categories = []\<rparr>]"
    by code_simp
  have b: "map link (rows (snd (snd (fetchFeedArticles example_env feed_c 7 empty_store))))
     = [''https://c.example/p/1'']"
    by code_simp
  have c: "trim ''https://c.example/p/1'' \<noteq> [] \<and> trim ''Body'' \<noteq> []"
    using validity_filter[of example_env 7 "[guid_only_item, blank_guid_item]" feed_c empty_store]
    unfolding a by simp
  from a b c show ?thesis by blast
qed

text \<open>
  C10 (as amended). For an item whose link is missing or empty and whose GUID is not
  empty, the candidate's link and GUID are both the GUID; the candidate passes the link
  test of the filter exactly when the GUID is not made of white space only, and passes the
  filter when its content is not blank either. Wherever such a passing item stands among
  the items of the feed and whatever the table holds: if, when the loop reaches it (state
  \<open>s\<close>, after the candidates before it), the candidate is not a duplicate and
  \<^verbatim>\<open>create\<close> accepts it with row \<open>a\<close>, then \<open>a\<close> is in the table after the fetch, with
  the GUID as its link and as its GUID, under this feed, and the fetch returns a positive
  count. Symmetrically a missing or empty GUID is replaced by a non-empty link.
\<close>

theorem link_guid_cross_fallback:
  "(item_link item \<in> {None, Some []} \<and> item_guid item = Some g \<and> g \<noteq> [] \<longrightarrow>
      link (normalize_item E now item) = g \<and> guid (normalize_item E now item) = g \<and>
      (hasLink (normalize_item E now item) \<longleftrightarrow> (\<exists>c \<in> set g. \<not> is_ws c)) \<and>
      (normalize_item E now item \<in> set (validArticles E now [item]) \<longleftrightarrow>
         (\<exists>c \<in> set g. \<not> is_ws c) \<and> hasDescription (normalize_item E now item)) \<and>
      ((\<exists>c \<in> set g. \<not> is_ws c) \<and> hasDescription (normalize_item E now item) \<and>
       parse_feed E (url f) = Inr (Some (pre @ item # post)) \<and>
       s = dupe_loop (isUrl E) (feed_id f) now (init_state st (feed_id f))
             (validArticles E now pre) \<and>
       duplicateReason s (normalize_item E now item) = None \<and>
       create (isUrl E) (db s) (normalize_item E now item) (feed_id f) now = Inr (a, db') \<longrightarrow>
         a \<in> set (rows (snd (snd (fetchFeedArticles E f now st)))) \<and>
         link a = g \<and> guid a = g \<and> feedId a = feed_id f \<and>
         (\<exists>n. fst (fetchFeedArticles E f now st) = Inr n \<and> 0 < n))) \<and>
   (item_guid item \<in> {None, Some []} \<and> item_link item = Some l \<and> l \<noteq> [] \<longrightarrow>
      link (normalize_item E now item) = l \<and> guid (normalize_item E now item) = l)"
proof (intro conjI impI)
  assume h: "item_link item \<in> {None, Some []} \<and> item_guid item = Some g \<and> g \<noteq> []"
  let ?c = "normalize_item E now item"
  let ?fid = "feed_id f"
  show lg: "link ?c = g"
    using h by (auto simp: normalize_item_def)
  show gg: "guid ?c = g"
    using h by (auto simp: normalize_item_def)
  show hl: "hasLink ?c \<longleftrightarrow> (\<exists>c \<in> set g. \<not> is_ws c)"
    using h lg by (simp add: hasLink_def trim_nonempty_iff)
  show "?c \<in> set (validArticles E now [item]) \<longleftrightarrow>
         (\<exists>c \<in> set g. \<not> is_ws c) \<and> hasDescription ?c"
    using hl by (simp add: validArticles_def)
  assume p: "(\<exists>c \<in> set g. \<not> is_ws c) \<and> hasDescription ?c \<and>
       parse_feed E (url f) = Inr (Some (pre @ item # post)) \<and>
       s = dupe_loop (isUrl E) ?fid now (init_state st ?fid) (validArticles E now pre) \<and>
       duplicateReason s ?c = None \<and>
       create (isUrl E) (db s) ?c ?fid now = Inr (a, db')"
  let ?vs = "validArticles E now (pre @ item # post)"
  let ?done = "dupe_loop (isUrl E) ?fid now (init_state st ?fid) ?vs"
  let ?s1 = "process_article (isUrl E) ?fid now s ?c"
  from p hl have passes: "hasLink ?c \<and> hasDescription ?c" by blast
  then have split: "?vs = validArticles E now pre @ ?c # validArticles E now post"
    by (simp add: validArticles_def)
  then have ne: "?vs \<noteq> []" by simp
  from p have cr: "create (isUrl E) (db s) ?c ?fid now = Inr (a, db')" by blast
  from p have dr: "duplicateReason s ?c = None" by blast
  from p have pf: "parse_feed E (url f) = Inr (Some (pre @ item # post))" by blast
  from p have sdef: "dupe_loop (isUrl E) ?fid now (init_state st ?fid) (validArticles E now pre) = s"
    by blast
  note fields = create_Inr_fields[OF cr]
  have s1: "newArticles ?s1 = newArticles s @ [a]" "db ?s1 = db'"
    by (simp_all add: process_article_def dr cr)
  have reach: "?done = dupe_loop (isUrl E) ?fid now ?s1 (validArticles E now post)"
    by (simp add: split dupe_loop_append sdef)
  have "a \<in> set (rows (db ?s1))" using s1 fields by simp
  then have in_rows: "a \<in> set (rows (db ?done))"
    using rows_grow_loop[of ?s1 "isUrl E" ?fid now "validArticles E now post"]
    unfolding reach by blast
  have "a \<in> set (newArticles ?s1)" using s1 by simp
  then have "a \<in> set (newArticles ?done)"
    using newArticles_grow_loop[of ?s1 "isUrl E" ?fid now "validArticles E now post"]
    unfolding reach by blast
  then have pos: "0 < length (newArticles ?done)" by (cases "newArticles ?done") auto
  have fetch: "fetchFeedArticles E f now st =
      (Inr (length (newArticles ?done)), f\<lparr>lastFetched := Some now, errorCount := 0\<rparr>, db ?done)"
    using ne by (simp add: fetchFeedArticles_def bulkCreateSafeWithDupeCheck_def Let_def pf)
  show "a \<in> set (rows (snd (snd (fetchFeedArticles E f now st))))"
    using in_rows by (simp add: fetch)
  show "link a = g" using fields lg by simp
  show "guid a = g" using fields gg by simp
  show "feedId a = ?fid" using fields by simp
  show "\<exists>n. fst (fetchFeedArticles E f now st) = Inr n \<and> 0 < n"
    using pos by (simp add: fetch)
next
  assume h: "item_guid item \<in> {None, Some []} \<and> item_link item = Some l \<and> l \<noteq> []"
  show "link (normalize_item E now item) = l"
    using h by (auto simp: normalize_item_def)
  show "guid (normalize_item E now item) = l"
    using h by (auto simp: normalize_item_def)
qed

text \<open>
  C10 read to the letter has every such item pass the filter and be stored. An item
  without link whose GUID is two spaces: the GUID is not empty and becomes the link, yet
  the item fails the link test and is discarded. An item without link whose GUID is a
  URN: it passes the filter, but the \<^verbatim>\<open>isUrl\<close> validator of the \<^verbatim>\<open>link\<close> column refuses
  it and nothing is stored.
\<close>

theorem link_guid_cross_fallback_counterexample:
  "item_link blank_guid_item = None \<and> item_guid blank_guid_item = Some ''  '' \<and>
   link (normalize_item example_env 7 blank_guid_item) = ''  '' \<and>
   \<not> hasLink (normalize_item example_env 7 blank_guid_item) \<and>
   validArticles example_env 7 [blank_guid_item] = [] \<and>
   item_link urn_guid_item = None \<and> item_guid urn_guid_item = Some ''urn:uuid:42'' \<and>
   map link (validArticles example_env 7 [urn_guid_item]) = [''urn:uuid:42''] \<and>
   fetchFeedArticles example_env feed_f 7 empty_store
     = (Inr 0, feed_f\<lparr>lastFetched := Some 7, errorCount := 0\<rparr>, empty_store)"
  by code_simp

text \<open>
  Feed H on a table that already holds one of its articles: the item with an empty link
  stands second of three, after an item that is stored and before one that is discarded.
\<close>

theorem link_guid_cross_fallback_witness:
  "item_link guid_only_item = Some [] \<and>
   item_guid guid_only_item = Some ''https://c.example/p/1'' \<and>
   parse_feed example_env (url feed_h)
     = Inr (Some ([linked_item] @ guid_only_item # [blank_guid_item])) \<and>
   hasLink (normalize_item example_env 7 guid_only_item) \<and>
   \<lparr>title = ''Post'', link = ''https://c.example/p/1'', pubDate = 7, rawContent = ''Body'',
     author = [], guid = ''https://c.example/p/1'', categories = [],
     rowid = 3, feedId = 8, createdAt = 7, updatedAt = 7\<rparr>
     \<in> set (rows (snd (snd (fetchFeedArticles example_env feed_h 7 busy_store)))) \<and>
   map link (rows (snd (snd (fetchFeedArticles example_env feed_h 7 busy_store))))
     = [''https://h.example/p/old'', ''https://h.example/p/0'', ''https://c.example/p/1''] \<and>
   fst (fetchFeedArticles example_env feed_h 7 busy_store) = Inr 2"
proof -
  let ?g = "''https://c.example/p/1''"
  let ?a = "\<lparr>title = ''Post'', link = ?g, pubDate = 7, rawContent = ''Body'',
     author = [], guid = ?g, categories = [],
     rowid = 3, feedId = 8, createdAt = 7, updatedAt = 7\<rparr>"
  let ?s = "dupe_loop (isUrl example_env) (feed_id feed_h) 7
              (init_state busy_store (feed_id feed_h)) (validArticles example_env 7 [linked_item])"
  let ?db = "\<lparr>rows = rows (db ?s) @ [?a], nextId = 4, feedIds = [8]\<rparr>"
  have h: "item_link guid_only_item \<in> {None, Some []} \<and> item_guid guid_only_item = Some ?g \<and> ?g \<noteq> []"
    by (simp add: guid_only_item_def)
  have h': "item_link guid_only_item = Some [] \<and> item_guid guid_only_item = Some ?g"
    by (simp add: guid_only_item_def)
  have nb: "\<exists>c \<in> set ?g. \<not> is_ws c"
    by (simp add: is_ws_def)
  have d: "hasDescription (normalize_item example_env 7 guid_only_item)"
    by code_simp
  have p: "parse_feed example_env (url feed_h)
     = Inr (Some ([linked_item] @ guid_only_item # [blank_guid_item]))"
    by code_simp
  have r: "duplicateReason ?s (normalize_item example_env 7 guid_only_item) = None"
    by code_simp
  have c: "create (isUrl example_env) (db ?s) (normalize_item example_env 7 guid_only_item)
             (feed_id feed_h) 7 = Inr (?a, ?db)"
    by code_simp
  have m: "map link (rows (snd (snd (fetchFeedArticles example_env feed_h 7 busy_store))))
     = [''https://h.example/p/old'', ''https://h.example/p/0'', ''https://c.example/p/1'']"
    by code_simp
  have n: "fst (fetchFeedArticles example_env feed_h 7 busy_store) = Inr 2"
    by code_simp
  note inst = link_guid_cross_fallback[where item = guid_only_item and g = ?g
      and E = example_env and now = 7 and f = feed_h and st = busy_store
      and pre = "[linked_item]" and post = "[blank_guid_item]" and s = ?s and a = ?a
      and db' = ?db, THEN conjunct1, rule_format, OF h]
  from inst nb d p r c h' m n show ?thesis by blast
qed


text \<open>
  C4. When the parse succeeds and at least one candidate passes the filter, the call
  returns the number of articles created, and the feed has \<^verbatim>\<open>errorCount\<close> 0 and
  \<^verbatim>\<open>lastFetched\<close> now. When both parsers fail, the call throws, and the feed has its
  \<^verbatim>\<open>errorCount\<close> plus one and \<^verbatim>\<open>lastFetched\<close> now. When the parse succeeds with no
  items or with no candidate that passes the filter, the call returns 0 and the feed (and
  the table) are as before.
\<close>

theorem feed_error_state_transition:
  "(parse_feed E (url f) = Inr (Some its) \<and> validArticles E now its \<noteq> [] \<longrightarrow>
      fetchFeedArticles E f now st =
        (Inr (length (newArticles (bulkCreateSafeWithDupeCheck (isUrl E) now st
                                     (validArticles E now its) (feed_id f)))),
         f\<lparr>lastFetched := Some now, errorCount := 0\<rparr>,
         db (bulkCreateSafeWithDupeCheck (isUrl E) now st (validArticles E now its) (feed_id f)))) \<and>
   (parse_feed E (url f) = Inl e \<longrightarrow>
      (\<exists>thrown. fetchFeedArticles E f now st =
         (Inl thrown, f\<lparr>lastFetched := Some now, errorCount := errorCount f + 1\<rparr>, st))) \<and>
   (parse_feed E (url f) = Inr None \<or>
    (parse_feed E (url f) = Inr (Some its) \<and> validArticles E now its = []) \<longrightarrow>
      fetchFeedArticles E f now st = (Inr 0, f, st))"
  by (auto simp: fetchFeedArticles_def Let_def validArticles_def)

text \<open>
  Feed A cannot be fetched and goes from 0 errors to 1; feed B has no items and keeps its
  2 errors; feed C yields an article and goes from 4 errors to 0.
\<close>

theorem feed_error_state_transition_witness:
  "isl (parse_feed example_env (url feed_a)) \<and>
   snd (fetchFeedArticles example_env feed_a 7 empty_store)
     = (feed_a\<lparr>lastFetched := Some 7, errorCount := 1\<rparr>, empty_store) \<and>
   fetchFeedArticles example_env feed_b 7 empty_store = (Inr 0, feed_b, empty_store) \<and>
   fst (fetchFeedArticles example_env feed_c 7 empty_store) = Inr 1 \<and>
   fst (snd (fetchFeedArticles example_env feed_c 7 empty_store))
     = feed_c\<lparr>lastFetched := Some 7, errorCount := 0\<rparr>"
proof -
  have fails: "isl (parse_feed example_env (url feed_a))" by code_simp
  then obtain e where e: "parse_feed example_env (url feed_a) = Inl e"
    by (cases "parse_feed example_env (url feed_a)") auto
  have zero: "errorCount feed_a = 0" by (simp add: feed_a_def)
  from feed_error_state_transition[where E = example_env and f = feed_a and now = 7
      and e = e and st = empty_store] e zero
  have a: "snd (fetchFeedArticles example_env feed_a 7 empty_store)
     = (feed_a\<lparr>lastFetched := Some 7, errorCount := 1\<rparr>, empty_store)"
    by auto
  have b: "fetchFeedArticles example_env feed_b 7 empty_store = (Inr 0, feed_b, empty_store)"
    by code_simp
  have c: "fst (fetchFeedArticles example_env feed_c 7 empty_store) = Inr 1 \<and>
   fst (snd (fetchFeedArticles example_env feed_c 7 empty_store))
     = feed_c\<lparr>lastFetched := Some 7, errorCount := 0\<rparr>"
    by code_simp
  from fails a b c show ?thesis by blast
qed

section \<open>Fetching the same items again\<close>

lemma mirrors_init: "mirrors (init_state st fid) fid"
  by (simp add: mirrors_def init_state_def Let_def)

lemma duplicateReason_mirrors:
  "mirrors s fid \<Longrightarrow> duplicateReason s d = duplicateReason (init_state (db s) fid) d"
  by (simp add: mirrors_def duplicateReason_def init_state_def Let_def)

lemma mirrors_step:
  assumes "mirrors s fid"
  shows "mirrors (process_article isU fid now s d) fid"
proof (cases "duplicateReason s d")
  case (Some reason)
  with assms show ?thesis by (simp add: process_article_def mirrors_def)
next
  case None
  show ?thesis
  proof (cases "create isU (db s) d fid now")
    case (Inl e)
    with None assms show ?thesis by (simp add: process_article_def mirrors_def)
  next
    case (Inr p)
    obtain a st' where p: "p = (a, st')" by (cases p)
    note f = create_Inr_fields[OF Inr[unfolded p]]
    have fa: "findAll_feed st' fid = findAll_feed (db s) fid @ [a]"
      by (simp add: findAll_feed_def f)
    from None Inr p assms show ?thesis
      by (simp add: process_article_def mirrors_def fa lookup_set_snoc1 f)
  qed
qed

text \<open>A blocked candidate leaves the table and the list as they are.\<close>

lemma process_article_blocked_noop:
  assumes "mirrors s fid" and "blocked isU (db s) fid d"
  shows "newArticles (process_article isU fid now s d) = newArticles s \<and>
         db (process_article isU fid now s d) = db s"
proof (cases "duplicateReason s d")
  case (Some reason)
  then show ?thesis by (simp add: process_article_def)
next
  case None
  with assms have "isl (create isU (db s) d fid 0)"
    by (simp add: blocked_def duplicateReason_mirrors)
  then have "isl (create isU (db s) d fid now)"
    using create_isl_now by blast
  then obtain e where "create isU (db s) d fid now = Inl e"
    by (cases "create isU (db s) d fid now") auto
  with None show ?thesis by (simp add: process_article_def)
qed

lemma blocked_noop_loop:
  "mirrors s fid \<Longrightarrow> \<forall>d \<in> set ds. blocked isU (db s) fid d \<Longrightarrow>
     newArticles (dupe_loop isU fid now s ds) = newArticles s \<and>
     db (dupe_loop isU fid now s ds) = db s"
proof (induction ds arbitrary: s)
  case Nil
  then show ?case by simp
next
  case (Cons d ds)
  let ?s1 = "process_article isU fid now s d"
  have n: "newArticles ?s1 = newArticles s \<and> db ?s1 = db s"
    using process_article_blocked_noop[OF Cons.prems(1)] Cons.prems(2) by simp
  have m: "mirrors ?s1 fid" using Cons.prems(1) by (rule mirrors_step)
  have "\<forall>d \<in> set ds. blocked isU (db ?s1) fid d"
    using Cons.prems(2) n by simp
  from Cons.IH[OF m this] n show ?case by simp
qed

text \<open>A blocked candidate stays blocked when the table grows.\<close>

lemma blocked_mono:
  assumes "set (rows st) \<subseteq> set (rows st')" and "feedIds st' = feedIds st"
    and "blocked isU st fid d"
  shows "blocked isU st' fid d"
proof -
  have sub: "set (findAll_feed st fid) \<subseteq> set (findAll_feed st' fid)"
    using assms(1) by (auto simp: findAll_feed_def)
  have l: "lookup_set f (findAll_feed st fid) \<subseteq> lookup_set f (findAll_feed st' fid)" for f
    using sub by (rule lookup_set_mono)
  show ?thesis
  proof (cases "duplicateReason (init_state st fid) d")
    case (Some reason)
    then have "duplicateReason (init_state st fid) d \<noteq> None" by simp
    then have "duplicateReason (init_state st' fid) d \<noteq> None"
      using l[of link] l[of guid] l[of title]
      unfolding duplicateReason_None_iff by (auto simp: init_state_def Let_def)
    then show ?thesis by (simp add: blocked_def)
  next
    case None
    with assms(3) have "isl (create isU st d fid 0)" by (simp add: blocked_def)
    then have "isl (create isU st' d fid 0)"
      using assms(1,2) unfolding create_isl_iff by auto
    then show ?thesis by (simp add: blocked_def)
  qed
qed

text \<open>Once a candidate has been through an iteration, it is blocked.\<close>

lemma blocked_after_step:
  assumes "mirrors s fid"
  shows "blocked isU (db (process_article isU fid now s d)) fid d"
proof (cases "duplicateReason s d")
  case (Some reason)
  then have "db (process_article isU fid now s d) = db s" by (simp add: process_article_def)
  moreover have "duplicateReason (init_state (db s) fid) d \<noteq> None"
    using Some duplicateReason_mirrors[OF assms] by simp
  ultimately show ?thesis by (simp add: blocked_def)
next
  case None
  show ?thesis
  proof (cases "create isU (db s) d fid now")
    case (Inl e)
    with None have "db (process_article isU fid now s d) = db s" by (simp add: process_article_def)
    moreover have "isl (create isU (db s) d fid 0)"
      using Inl create_isl_now[of isU "db s" d fid 0 now] by simp
    ultimately show ?thesis by (simp add: blocked_def)
  next
    case (Inr p)
    obtain a st' where p: "p = (a, st')" by (cases p)
    note f = create_Inr_fields[OF Inr[unfolded p]]
    have d: "db (process_article isU fid now s d) = st'"
      using None Inr p by (simp add: process_article_def)
    have "\<exists>r \<in> set (rows st'). link r = link d"
      using f by auto
    then have "isl (create isU st' d fid 0)"
      unfolding create_isl_iff by blast
    then show ?thesis by (simp add: blocked_def d)
  qed
qed

lemma all_blocked_after_loop:
  "mirrors s fid \<Longrightarrow> \<forall>d \<in> set ds. blocked isU (db (dupe_loop isU fid now s ds)) fid d"
proof (induction ds arbitrary: s)
  case Nil
  then show ?case by simp
next
  case (Cons d ds)
  let ?s1 = "process_article isU fid now s d"
  have m: "mirrors ?s1 fid" using Cons.prems by (rule mirrors_step)
  have b: "blocked isU (db ?s1) fid d" using Cons.prems by (rule blocked_after_step)
  have "blocked isU (db (dupe_loop isU fid now ?s1 ds)) fid d"
    using rows_grow_loop feedIds_loop b by (rule blocked_mono)
  with Cons.IH[OF m] show ?case by simp
qed

lemma blocked_same_identity:
  assumes "same_identity d d'"
  shows "blocked isU st fid d = blocked isU st fid d'"
proof -
  have v: "validate isU d = validate isU d'" "fits_columns d = fits_columns d'"
    using assms by (simp_all add: same_identity_def validate_def fits_columns_def)
  have "duplicateReason (init_state st fid) d = None \<longleftrightarrow> duplicateReason (init_state st fid) d' = None"
    using assms by (simp add: duplicateReason_None_iff same_identity_def)
  moreover have "isl (create isU st d fid 0) \<longleftrightarrow> isl (create isU st d' fid 0)"
    using assms v by (simp add: create_isl_iff same_identity_def)
  ultimately show ?thesis by (simp add: blocked_def)
qed

lemma normalize_same_identity:
  "same_identity (normalize_item E now item) (normalize_item E now' item)"
  by (simp add: same_identity_def normalize_item_def split: option.splits)

lemma validArticles_same_identity:
  "list_all2 same_identity (validArticles E now its) (validArticles E now' its)"
proof (induction its)
  case Nil
  then show ?case by (simp add: validArticles_def)
next
  case (Cons item its)
  have k: "(hasLink (normalize_item E now item) \<and> hasDescription (normalize_item E now item)) =
           (hasLink (normalize_item E now' item) \<and> hasDescription (normalize_item E now' item))"
    by (simp add: hasLink_def hasDescription_def normalize_item_def)
  show ?case
    using Cons normalize_same_identity[of E now item now'] k
    by (simp add: validArticles_def)
qed

lemma replay_inserts_nothing:
  fixes isU :: "string \<Rightarrow> bool" and fid :: nat and now now' :: int and st :: store
  assumes "list_all2 same_identity ds ds'"
  defines "st1 \<equiv> db (dupe_loop isU fid now (init_state st fid) ds)"
  shows "newArticles (dupe_loop isU fid now' (init_state st1 fid) ds') = [] \<and>
         db (dupe_loop isU fid now' (init_state st1 fid) ds') = st1"
proof -
  have b: "\<forall>d \<in> set ds. blocked isU st1 fid d"
    unfolding st1_def using mirrors_init by (rule all_blocked_after_loop)
  have "\<forall>d' \<in> set ds'. blocked isU st1 fid d'"
  proof
    fix d' assume "d' \<in> set ds'"
    then obtain i where i: "i < length ds'" "ds' ! i = d'"
      by (auto simp: in_set_conv_nth)
    have len: "length ds = length ds'" using assms(1) by (rule list_all2_lengthD)
    have "same_identity (ds ! i) (ds' ! i)"
      using assms(1) i(1) len by (simp add: list_all2_nthD2)
    moreover have "ds ! i \<in> set ds" using i(1) len by simp
    ultimately obtain d where "d \<in> set ds" "same_identity d d'"
      using i(2) by blast
    with b blocked_same_identity show "blocked isU st1 fid d'" by blast
  qed
  then have "\<forall>d' \<in> set ds'. blocked isU (db (init_state st1 fid)) fid d'"
    by (simp add: init_state_def Let_def)
  from blocked_noop_loop[OF mirrors_init this]
  show ?thesis by (simp add: init_state_def Let_def)
qed

text \<open>
  C1. If a fetch of a feed succeeds, a second fetch of the same feed at any later time,
  on the table the first fetch left and with the parsers answering as before, returns 0
  and leaves the table as it is; and the call of \<^verbatim>\<open>bulkCreateSafeWithDupeCheck\<close> in the
  second fetch returns the empty list. The table accepts or refuses an insert by the
  schema alone (validators and unique indexes).
\<close>

theorem fetch_idempotent:
  assumes first: "fetchFeedArticles E f now st = (Inr n, f1, st1)"
  shows "fst (fetchFeedArticles E f1 now' st1) = Inr 0 \<and>
         snd (snd (fetchFeedArticles E f1 now' st1)) = st1 \<and>
         (\<forall>its. parse_feed E (url f) = Inr (Some its) \<longrightarrow>
            newArticles (bulkCreateSafeWithDupeCheck (isUrl E) now' st1
                           (validArticles E now' its) (feed_id f)) = [])"
proof (cases "parse_feed E (url f)")
  case (Inl e)
  with first show ?thesis by (simp add: fetchFeedArticles_def)
next
  case (Inr parsed)
  show ?thesis
  proof (cases parsed)
    case None
    with Inr first have "f1 = f" "st1 = st" by (simp_all add: fetchFeedArticles_def)
    with Inr None show ?thesis by (simp add: fetchFeedArticles_def)
  next
    case (Some its)
    let ?v = "validArticles E now its" and ?v' = "validArticles E now' its"
    have rel: "list_all2 same_identity ?v ?v'" by (rule validArticles_same_identity)
    then have len: "length ?v = length ?v'" by (rule list_all2_lengthD)
    show ?thesis
    proof (cases "?v = []")
      case True
      then have v': "?v' = []" using len by simp
      from True Inr Some first have "f1 = f" "st1 = st"
        by (simp_all add: fetchFeedArticles_def split: if_splits)
      with Inr Some v' show ?thesis
        by (simp add: fetchFeedArticles_def bulkCreateSafeWithDupeCheck_def)
    next
      case False
      then have v': "?v' \<noteq> []" using len by auto
      have its: "its \<noteq> []" using False by (auto simp: validArticles_def)
      let ?fid = "feed_id f"
      have st1: "st1 = db (dupe_loop (isUrl E) ?fid now (init_state st ?fid) ?v)"
        and f1: "f1 = f\<lparr>lastFetched := Some now, errorCount := 0\<rparr>"
        using False its Inr Some first
        by (simp_all add: fetchFeedArticles_def Let_def bulkCreateSafeWithDupeCheck_def)
      have replay: "newArticles (dupe_loop (isUrl E) ?fid now' (init_state st1 ?fid) ?v') = [] \<and>
            db (dupe_loop (isUrl E) ?fid now' (init_state st1 ?fid) ?v') = st1"
        unfolding st1 using rel by (rule replay_inserts_nothing)
      have bulk: "bulkCreateSafeWithDupeCheck (isUrl E) now' st1 ?v' ?fid =
            dupe_loop (isUrl E) ?fid now' (init_state st1 ?fid) ?v'"
        using v' by (simp add: bulkCreateSafeWithDupeCheck_def)
      have "fetchFeedArticles E f1 now' st1 =
              (Inr 0, f1\<lparr>lastFetched := Some now', errorCount := 0\<rparr>, st1)"
        using Inr Some its v' replay bulk
        by (simp add: fetchFeedArticles_def Let_def f1)
      then show ?thesis
        using Inr Some replay bulk by simp
    qed
  qed
qed

text \<open>Feed C, fetched at time 7 on an empty table and again at time 8.\<close>

theorem fetch_idempotent_witness:
  "fetchFeedArticles example_env feed_c 7 empty_store =
     (Inr 1, feed_c\<lparr>lastFetched := Some 7, errorCount := 0\<rparr>,
      \<lparr>rows = [\<lparr>title = ''Post'', link = ''https://c.example/p/1'', pubDate = 7,
                 rawContent = ''Body'', author = [], guid = ''https://c.example/p/1'',
                 categories = [], rowid = 1, feedId = 3, createdAt = 7, updatedAt = 7\<rparr>],
        nextId = 2, feedIds = [1, 2, 3, 6, 7]\<rparr>) \<and>
   fst (fetchFeedArticles example_env (feed_c\<lparr>lastFetched := Some 7, errorCount := 0\<rparr>) 8
     \<lparr>rows = [\<lparr>title = ''Post'', link = ''https://c.example/p/1'', pubDate = 7,
                 rawContent = ''Body'', author = [], guid = ''https://c.example/p/1'',
                 categories = [], rowid = 1, feedId = 3, createdAt = 7, updatedAt = 7\<rparr>],
        nextId = 2, feedIds = [1, 2, 3, 6, 7]\<rparr>) = Inr 0"
proof -
  have run1: "fetchFeedArticles example_env feed_c 7 empty_store =
     (Inr 1, feed_c\<lparr>lastFetched := Some 7, errorCount := 0\<rparr>,
      \<lparr>rows = [\<lparr>title = ''Post'', link = ''https://c.example/p/1'', pubDate = 7,
                 rawContent = ''Body'', author = [], guid = ''https://c.example/p/1'',
                 categories = [], rowid = 1, feedId = 3, createdAt = 7, updatedAt = 7\<rparr>],
        nextId = 2, feedIds = [1, 2, 3, 6, 7]\<rparr>)"
    by code_simp
  from fetch_idempotent[OF run1, of 8] run1 show ?thesis by blast
qed


section \<open>Properties of \<^verbatim>\<open>fetchAllFeeds\<close>\<close>

lemma fetch_throws_iff:
  "isl (fst (fetchFeedArticles E f now st)) \<longleftrightarrow> isl (parse_feed E (url f))"
  by (auto simp: fetchFeedArticles_def Let_def split: sum.splits option.splits)

lemma fetch_errorCount:
  "errorCount (fst (snd (fetchFeedArticles E f now st))) =
     (case parse_feed E (url f) of
        Inl e \<Rightarrow> errorCount f + 1
      | Inr None \<Rightarrow> errorCount f
      | Inr (Some its) \<Rightarrow> if validArticles E now its = [] then errorCount f else 0)"
  by (auto simp: fetchFeedArticles_def Let_def validArticles_def split: sum.splits option.splits)

lemma fetch_rows_count:
  "length (rows (snd (snd (fetchFeedArticles E f now st))))
     = length (rows st) + inserted_count (fst (fetchFeedArticles E f now st))"
proof (cases "\<exists>its. parse_feed E (url f) = Inr (Some its) \<and> its \<noteq> [] \<and> validArticles E now its \<noteq> []")
  case False
  then show ?thesis
    by (auto simp: fetchFeedArticles_def inserted_count_def split: sum.splits option.splits)
next
  case True
  then obtain its where its: "parse_feed E (url f) = Inr (Some its)" "its \<noteq> []"
    "validArticles E now its \<noteq> []" by blast
  let ?B = "bulkCreateSafeWithDupeCheck (isUrl E) now st (validArticles E now its) (feed_id f)"
  have "length (rows (db ?B)) = length (rows st) + length (newArticles ?B)"
    using bulk_rows[of "isUrl E" now st "validArticles E now its" "feed_id f"] by auto
  then show ?thesis
    using its by (simp add: fetchFeedArticles_def Let_def inserted_count_def)
qed

text \<open>The counters of the loop are the sums over the outcomes of the feeds.\<close>

lemma feeds_loop_outcomes:
  "feeds_loop E now (fetched, errors, seen, st) fs = (fetched', errors', seen', st') \<Longrightarrow>
     fetched' = fetched + sum_list (map (inserted_count \<circ> fst) (outcomes E now st fs)) \<and>
     errors' = errors + length (filter (isl \<circ> fst) (outcomes E now st fs)) \<and>
     seen' = seen @ map snd (outcomes E now st fs) \<and>
     length (rows st') = length (rows st) + sum_list (map (inserted_count \<circ> fst) (outcomes E now st fs))"
proof (induction fs arbitrary: fetched errors seen st)
  case Nil
  then show ?case by simp
next
  case (Cons f fs)
  obtain r f1 st1 where step: "fetchFeedArticles E f now st = (r, f1, st1)"
    by (cases "fetchFeedArticles E f now st") auto
  have rc: "length (rows st1) = length (rows st) + inserted_count r"
    using fetch_rows_count[of E f now st] step by simp
  show ?case
  proof (cases r)
    case (Inl err)
    with step Cons.prems
    have "feeds_loop E now (fetched, errors + 1, seen @ [f1], st1) fs = (fetched', errors', seen', st')"
      by simp
    from Cons.IH[OF this] step Inl rc show ?thesis
      by (simp add: inserted_count_def)
  next
    case (Inr n)
    with step Cons.prems
    have "feeds_loop E now (fetched + n, errors, seen @ [f1], st1) fs = (fetched', errors', seen', st')"
      by simp
    from Cons.IH[OF this] step Inr rc show ?thesis
      by (simp add: inserted_count_def)
  qed
qed

lemma length_outcomes: "length (outcomes E now st fs) = length fs"
  by (induction fs arbitrary: st) (auto split: prod.splits)

lemma outcomes_errors:
  "length (filter (isl \<circ> fst) (outcomes E now st fs))
     = length (filter (\<lambda>f. isl (parse_feed E (url f))) fs)"
proof (induction fs arbitrary: st)
  case Nil
  then show ?case by simp
next
  case (Cons f fs)
  obtain r f1 st1 where step: "fetchFeedArticles E f now st = (r, f1, st1)"
    by (cases "fetchFeedArticles E f now st") auto
  have "isl r \<longleftrightarrow> isl (parse_feed E (url f))"
    using fetch_throws_iff[of E f now st] step by simp
  with Cons[of st1] step show ?case by simp
qed

lemma outcomes_nth:
  "i < length fs \<Longrightarrow> \<exists>st_i. outcomes E now st fs ! i =
       (fst (fetchFeedArticles E (fs ! i) now st_i), fst (snd (fetchFeedArticles E (fs ! i) now st_i)))"
proof (induction fs arbitrary: st i)
  case Nil
  then show ?case by simp
next
  case (Cons f fs)
  obtain r f1 st1 where step: "fetchFeedArticles E f now st = (r, f1, st1)"
    by (cases "fetchFeedArticles E f now st") auto
  show ?case
  proof (cases i)
    case 0
    with step show ?thesis by (auto intro: exI[of _ st])
  next
    case (Suc j)
    with Cons.prems have "j < length fs" by simp
    from Cons.IH[OF this, of st1] Suc step show ?thesis by simp
  qed
qed

text \<open>
  C3 (as amended). The run visits every active feed, one after the other, whatever the
  earlier feeds did: \<^verbatim>\<open>feedsProcessed\<close> is the number of active feeds, \<^verbatim>\<open>totalErrors\<close> the
  number of feeds whose fetch threw (those for which both parsers failed), \<^verbatim>\<open>totalFetched\<close>
  the sum of the counts returned by the other feeds, which is also the number of rows the
  run added to the table. A feed that threw has its \<^verbatim>\<open>errorCount\<close> plus one; a feed that
  succeeded with at least one valid candidate has \<^verbatim>\<open>errorCount\<close> 0; a feed that succeeded
  with no item or no valid candidate keeps its \<^verbatim>\<open>errorCount\<close>.
\<close>

theorem fetchAllFeeds_error_isolation:
  fixes E :: env and feedTable :: "feed list" and now :: int and st :: store
  defines "feeds \<equiv> filter isActive feedTable"
  defines "summary \<equiv> fst (fetchAllFeeds E feedTable now st)"
  defines "seen \<equiv> fst (snd (fetchAllFeeds E feedTable now st))"
  defines "st' \<equiv> snd (snd (fetchAllFeeds E feedTable now st))"
  shows "feedsProcessed summary = length feeds \<and>
         length seen = length feeds \<and>
         totalErrors summary = length (filter (isl \<circ> fst) (outcomes E now st feeds)) \<and>
         totalErrors summary = length (filter (\<lambda>f. isl (parse_feed E (url f))) feeds) \<and>
         totalFetched summary = sum_list (map (inserted_count \<circ> fst) (outcomes E now st feeds)) \<and>
         length (rows st') = length (rows st) + totalFetched summary \<and>
         (\<forall>i < length feeds.
            errorCount (seen ! i) =
              (case parse_feed E (url (feeds ! i)) of
                 Inl e \<Rightarrow> errorCount (feeds ! i) + 1
               | Inr None \<Rightarrow> errorCount (feeds ! i)
               | Inr (Some its) \<Rightarrow>
                   if validArticles E now its = [] then errorCount (feeds ! i) else 0))"
proof -
  obtain fetched errors seen0 st0 where
    loop: "feeds_loop E now (0, 0, [], st) feeds = (fetched, errors, seen0, st0)"
    by (cases "feeds_loop E now (0, 0, [], st) feeds") auto
  have run: "fetchAllFeeds E feedTable now st =
      (\<lparr>totalFetched = fetched, totalErrors = errors, feedsProcessed = length feeds\<rparr>, seen0, st0)"
    using loop by (simp add: fetchAllFeeds_def feeds_def Let_def)
  note o = feeds_loop_outcomes[OF loop]
  have s1: "feedsProcessed summary = length feeds" by (simp add: summary_def run)
  have seen_eq: "seen = map snd (outcomes E now st feeds)"
    using o by (simp add: seen_def run)
  have s2: "length seen = length feeds" by (simp add: seen_eq length_outcomes)
  have s3: "totalErrors summary = length (filter (isl \<circ> fst) (outcomes E now st feeds))"
    using o by (simp add: summary_def run)
  have s4: "totalErrors summary = length (filter (\<lambda>f. isl (parse_feed E (url f))) feeds)"
    using s3 by (simp only: outcomes_errors)
  have s5: "totalFetched summary = sum_list (map (inserted_count \<circ> fst) (outcomes E now st feeds))"
    using o by (simp add: summary_def run)
  have s6: "length (rows st') = length (rows st) + totalFetched summary"
    using o s5 by (simp add: st'_def run)
  have s7: "\<forall>i < length feeds.
            errorCount (seen ! i) =
              (case parse_feed E (url (feeds ! i)) of
                 Inl e \<Rightarrow> errorCount (feeds ! i) + 1
               | Inr None \<Rightarrow> errorCount (feeds ! i)
               | Inr (Some its) \<Rightarrow>
                   if validArticles E now its = [] then errorCount (feeds ! i) else 0)"
  proof (intro allI impI)
    fix i assume i: "i < length feeds"
    then obtain st_i where "outcomes E now st feeds ! i =
       (fst (fetchFeedArticles E (feeds ! i) now st_i),
        fst (snd (fetchFeedArticles E (feeds ! i) now st_i)))"
      using outcomes_nth by blast
    then have "seen ! i = fst (snd (fetchFeedArticles E (feeds ! i) now st_i))"
      using i by (simp add: seen_eq length_outcomes)
    then show "errorCount (seen ! i) =
              (case parse_feed E (url (feeds ! i)) of
                 Inl e \<Rightarrow> errorCount (feeds ! i) + 1
               | Inr None \<Rightarrow> errorCount (feeds ! i)
               | Inr (Some its) \<Rightarrow>
                   if validArticles E now its = [] then errorCount (feeds ! i) else 0)"
      by (simp only: fetch_errorCount)
  qed
  show ?thesis
    by (rule conjI[OF s1 conjI[OF s2 conjI[OF s3 conjI[OF s4 conjI[OF s5 conjI[OF s6 s7]]]]]])
qed

text \<open>
  C3 read to the letter has every feed that succeeds reset its \<^verbatim>\<open>errorCount\<close> to 0. Here
  feed A throws and feed B succeeds (it returns 0: its parsed feed has no items); one error is
  reported and A goes from 0 to 1, but B keeps its \<^verbatim>\<open>errorCount\<close> of 2.
\<close>

theorem fetchAllFeeds_error_isolation_counterexample:
  "isl (fst (fetchFeedArticles example_env feed_a 7 empty_store)) \<and>
   fst (fetchFeedArticles example_env feed_b 7 empty_store) = Inr 0 \<and>
   errorCount feed_b = 2 \<and>
   totalErrors (fst (fetchAllFeeds example_env [feed_a, feed_b] 7 empty_store)) = 1 \<and>
   map errorCount (fst (snd (fetchAllFeeds example_env [feed_a, feed_b] 7 empty_store))) = [1, 2]"
  by code_simp

text \<open>
  Feed A throws and feed C yields an article: one error, one article, A goes from 0 to 1
  and C from 4 to 0.
\<close>

theorem fetchAllFeeds_error_isolation_witness:
  "fst (fetchAllFeeds example_env [feed_a, feed_c] 7 empty_store)
     = \<lparr>totalFetched = 1, totalErrors = 1, feedsProcessed = 2\<rparr> \<and>
   map errorCount [feed_a, feed_c] = [0, 4] \<and>
   errorCount (fst (snd (fetchAllFeeds example_env [feed_a, feed_c] 7 empty_store)) ! 0) = 1 \<and>
   errorCount (fst (snd (fetchAllFeeds example_env [feed_a, feed_c] 7 empty_store)) ! 1) = 0"
proof -
  have active: "filter isActive [feed_a, feed_c] = [feed_a, feed_c]" by code_simp
  have pa: "isl (parse_feed example_env (url feed_a))" by code_simp
  have pc: "parse_feed example_env (url feed_c) = Inr (Some [guid_only_item, blank_guid_item])"
    by code_simp
  have vc: "validArticles example_env 7 [guid_only_item, blank_guid_item] \<noteq> []" by code_simp
  have before: "map errorCount [feed_a, feed_c] = [0, 4]" by code_simp
  have summary: "fst (fetchAllFeeds example_env [feed_a, feed_c] 7 empty_store)
     = \<lparr>totalFetched = 1, totalErrors = 1, feedsProcessed = 2\<rparr>" by code_simp
  note inst = fetchAllFeeds_error_isolation[where E = example_env
      and feedTable = "[feed_a, feed_c]" and now = 7 and st = empty_store, unfolded active]
  note each = inst[THEN conjunct2, THEN conjunct2, THEN conjunct2, THEN conjunct2,
      THEN conjunct2, THEN conjunct2, rule_format]
  have a: "errorCount (fst (snd (fetchAllFeeds example_env [feed_a, feed_c] 7 empty_store)) ! 0) = 1"
    using each[of 0] pa before by (auto split: sum.splits)
  have c: "errorCount (fst (snd (fetchAllFeeds example_env [feed_a, feed_c] 7 empty_store)) ! 1) = 0"
    using each[of 1] pc vc by simp
  from summary before a c show ?thesis by blast
qed


section \<open>Properties of the fallback parser\<close>

lemma length_userAgents: "length userAgents = 5"
  by (simp add: userAgents_def)

lemma drop_agents:
  "k < length userAgents \<Longrightarrow> drop k userAgents = userAgents ! k # drop (Suc k) userAgents"
  by (simp add: Cons_nth_drop_Suc)

lemma alternation_Cons:
  "agents \<noteq> [] \<Longrightarrow> alternation (a # agents) = Request a # SetTimeout 1000 # alternation agents"
  by (cases agents) (simp_all add: alternation_def)

lemma alternation_single: "alternation [a] = [Request a]"
  by (simp add: alternation_def)

lemma requests_schedule: "requests (schedule tr) = requests tr"
  by (induction tr rule: schedule.induct) simp_all

lemma requests_alternation: "requests (alternation agents) = agents"
proof (induction agents)
  case Nil
  then show ?case by (simp add: alternation_def)
next
  case (Cons a agents)
  then show ?case
    by (cases "agents = []") (simp_all add: alternation_single alternation_Cons)
qed

lemma attempts_from_pos:
  "k < length userAgents \<Longrightarrow>
     1 \<le> attempts_from http k \<and> k + attempts_from http k \<le> length userAgents"
  by (auto simp: attempts_from_def)

lemma attempts_from_Response:
  "k < length userAgents \<Longrightarrow> \<not> rejected (http (userAgents ! k)) \<Longrightarrow> attempts_from http k = 1"
  by (simp add: attempts_from_def drop_agents)

lemma attempts_from_Rejected:
  "Suc k < length userAgents \<Longrightarrow> rejected (http (userAgents ! k)) \<Longrightarrow>
     attempts_from http k = Suc (attempts_from http (Suc k))"
  by (auto simp: attempts_from_def drop_agents[of k])

lemma attempts_from_last:
  "Suc k = length userAgents \<Longrightarrow> attempts_from http k = 1"
  by (simp add: attempts_from_def)

text \<open>The requests and timers of a run that starts at User-Agent \<open>k\<close>.\<close>

lemma tryRequest_schedule:
  "k < length userAgents \<Longrightarrow>
     schedule (snd (tryRequest http k)) =
       alternation (take (attempts_from http k) (drop k userAgents))"
proof (induction http k rule: tryRequest.induct)
  case (1 http k)
  note k = \<open>k < length userAgents\<close>
  show ?case
  proof (cases "http (userAgents ! k)")
    case (Response body)
    then have a: "attempts_from http k = 1"
      using k by (simp add: attempts_from_def drop_agents rejected_def)
    show ?thesis
      using k Response
      by (subst tryRequest.simps) (simp add: a drop_agents alternation_single split: sum.splits)
  next
    case (Rejected err)
    show ?thesis
    proof (cases "Suc k < length userAgents")
      case True
      have af: "attempts_from http k = Suc (attempts_from http (Suc k))"
        using k True Rejected by (auto simp: attempts_from_def drop_agents[OF k] rejected_def)
      have pos: "take (attempts_from http (Suc k)) (drop (Suc k) userAgents) \<noteq> []"
        using True by (simp add: attempts_from_def)
      have ih: "schedule (snd (tryRequest http (Suc k))) =
          alternation (take (attempts_from http (Suc k)) (drop (Suc k) userAgents))"
        using "1.IH"[OF _ Rejected True True] k by simp
      show ?thesis
        using k True Rejected
        by (subst tryRequest.simps)
           (simp add: af drop_agents[OF k] alternation_Cons[OF pos] ih)
    next
      case False
      then have a: "attempts_from http k = 1"
        using k by (simp add: attempts_from_def)
      show ?thesis
        using k False Rejected
        by (subst tryRequest.simps) (simp add: a drop_agents[OF k] alternation_single)
    qed
  qed
qed

text \<open>How such a run ends, and that every GET before its last one was rejected.\<close>

lemma tryRequest_result:
  "k < length userAgents \<Longrightarrow>
     fst (tryRequest http k) = settle (http (userAgents ! (k + attempts_from http k - 1))) \<and>
     (\<forall>i. k \<le> i \<and> i < k + attempts_from http k - 1 \<longrightarrow> rejected (http (userAgents ! i))) \<and>
     (rejected (http (userAgents ! (k + attempts_from http k - 1)))
        \<longrightarrow> k + attempts_from http k = length userAgents)"
proof (induction http k rule: tryRequest.induct)
  case (1 http k)
  note k = \<open>k < length userAgents\<close>
  show ?case
  proof (cases "http (userAgents ! k)")
    case (Response body)
    then have nr: "\<not> rejected (http (userAgents ! k))" by (simp add: rejected_def)
    have a: "attempts_from http k = 1"
      using k nr by (rule attempts_from_Response)
    have "tryRequest http k = (settle (http (userAgents ! k)), [Request (userAgents ! k)])"
      using k Response by (subst tryRequest.simps) (simp add: settle_def split: sum.splits)
    then show ?thesis using nr by (auto simp: a)
  next
    case (Rejected err)
    then have r: "rejected (http (userAgents ! k))" by (simp add: rejected_def)
    show ?thesis
    proof (cases "Suc k < length userAgents")
      case True
      have af: "attempts_from http k = Suc (attempts_from http (Suc k))"
        using True r by (rule attempts_from_Rejected)
      have p: "1 \<le> attempts_from http (Suc k)"
        using attempts_from_pos[OF True] by simp
      have ih: "fst (tryRequest http (Suc k)) =
            settle (http (userAgents ! (Suc k + attempts_from http (Suc k) - 1))) \<and>
          (\<forall>i. Suc k \<le> i \<and> i < Suc k + attempts_from http (Suc k) - 1 \<longrightarrow> rejected (http (userAgents ! i))) \<and>
          (rejected (http (userAgents ! (Suc k + attempts_from http (Suc k) - 1)))
             \<longrightarrow> Suc k + attempts_from http (Suc k) = length userAgents)"
        using "1.IH"[OF _ Rejected True True] k by simp
      have step: "fst (tryRequest http k) = fst (tryRequest http (Suc k))"
        using k True Rejected by (subst tryRequest.simps) simp
      have idx: "k + Suc (attempts_from http (Suc k)) - 1 = Suc k + attempts_from http (Suc k) - 1"
        using p by simp
      have "\<forall>i. k \<le> i \<and> i < k + attempts_from http k - 1 \<longrightarrow> rejected (http (userAgents ! i))"
      proof (intro allI impI)
        fix i assume i: "k \<le> i \<and> i < k + attempts_from http k - 1"
        show "rejected (http (userAgents ! i))"
        proof (cases "i = k")
          case True
          then show ?thesis using r by simp
        next
          case False
          with i have "Suc k \<le> i \<and> i < Suc k + attempts_from http (Suc k) - 1"
            by (simp add: af)
          with ih show ?thesis by blast
        qed
      qed
      then show ?thesis
        using ih step by (simp add: af idx)
    next
      case False
      then have sk: "Suc k = length userAgents" using k by simp
      have a: "attempts_from http k = 1"
        using sk by (rule attempts_from_last)
      have "tryRequest http k = (Inl err, [Request (userAgents ! k), AttemptFailed (k + 1) (message err)])"
        using k False Rejected by (subst tryRequest.simps) simp
      then have "fst (tryRequest http k) = settle (http (userAgents ! k))"
        using Rejected by (simp add: settle_def)
      moreover have i: "k + attempts_from http k - 1 = k" by (simp add: a)
      moreover have "k + attempts_from http k = length userAgents" using sk by (simp add: a)
      ultimately show ?thesis unfolding i by auto
    qed
  qed
qed

text \<open>
  C6 (as amended). The list has five User-Agents: three browser signatures, then the bot
  identity, then the Google Feedfetcher identity. Let \<open>n\<close> be one more than the number of
  leading User-Agents whose GET is rejected, at most five. The fallback makes exactly \<open>n\<close>
  GETs, with the first \<open>n\<close> User-Agents in their order, and sets a timer of 1000 ms between
  two consecutive GETs; every GET before the last was rejected. The promise is settled by
  the answer to the last GET: resolved when the parser read the response to the end,
  rejected when the parser reported an error on it, rejected when the GET was rejected,
  which for the last GET only happens at the fifth User-Agent. So the fallback fails
  either after all five User-Agents were refused or as soon as a response arrives that
  the parser cannot read, and if it succeeds at its \<open>n\<close>th attempt it made \<open>n\<close> attempts.
\<close>

theorem fallback_rotation:
  fixes E :: env and u :: string
  defines "http \<equiv> axios E u"
  defines "n \<equiv> attempts_from http 0"
  shows "(length userAgents = 5 \<and> (\<forall>i < 3. prefix ''Mozilla/5.0'' (userAgents ! i)) \<and>
          userAgents ! 3 = ''RSS Feed Reader Bot/1.0'' \<and>
          userAgents ! 4 = ''Feedfetcher-Google; (+http://www.google.com/feedfetcher.html)'') \<and>
         1 \<le> n \<and> n \<le> 5 \<and>
         requests (snd (parseWithFeedParser E u)) = take n userAgents \<and>
         schedule (snd (parseWithFeedParser E u)) = alternation (take n userAgents) \<and>
         (\<forall>i < n - 1. rejected (http (userAgents ! i))) \<and>
         fst (parseWithFeedParser E u) = settle (http (userAgents ! (n - 1))) \<and>
         (rejected (http (userAgents ! (n - 1))) \<longrightarrow> n = 5) \<and>
         (isl (fst (parseWithFeedParser E u)) \<longrightarrow>
            (n = 5 \<and> rejected (http (userAgents ! 4))) \<or>
            (\<exists>err. http (userAgents ! (n - 1)) = Response (Inl err))) \<and>
         (\<not> isl (fst (parseWithFeedParser E u)) \<longrightarrow>
            (\<exists>read_items. http (userAgents ! (n - 1)) = Response (Inr read_items)) \<and>
            length (requests (snd (parseWithFeedParser E u))) = n)"
proof -
  have z: "0 < length userAgents" by (simp add: length_userAgents)
  have list: "length userAgents = 5 \<and> (\<forall>i < 3. prefix ''Mozilla/5.0'' (userAgents ! i)) \<and>
          userAgents ! 3 = ''RSS Feed Reader Bot/1.0'' \<and>
          userAgents ! 4 = ''Feedfetcher-Google; (+http://www.google.com/feedfetcher.html)''"
  proof -
    have "\<forall>i < 3. prefix ''Mozilla/5.0'' (userAgents ! i)"
    proof (intro allI impI)
      fix i :: nat assume "i < 3"
      then consider "i = 0" | "i = 1" | "i = 2" by linarith
      then show "prefix ''Mozilla/5.0'' (userAgents ! i)"
        by cases (simp_all add: userAgents_def)
    qed
    then show ?thesis by (simp add: userAgents_def)
  qed
  have n1: "1 \<le> n" and n5: "n \<le> 5"
    using attempts_from_pos[OF z, of http] by (simp_all add: n_def length_userAgents)
  have sch: "schedule (snd (parseWithFeedParser E u)) = alternation (take n userAgents)"
    using tryRequest_schedule[OF z, of http]
    by (simp add: parseWithFeedParser_def http_def n_def)
  have req: "requests (snd (parseWithFeedParser E u)) = take n userAgents"
    using sch requests_schedule[of "snd (parseWithFeedParser E u)"] requests_alternation
    by simp
  note res = tryRequest_result[OF z, of http]
  have before: "\<forall>i < n - 1. rejected (http (userAgents ! i))"
    using res by (simp add: n_def)
  have ends: "fst (parseWithFeedParser E u) = settle (http (userAgents ! (n - 1)))"
    using res by (simp add: parseWithFeedParser_def http_def n_def)
  have lastrej: "rejected (http (userAgents ! (n - 1))) \<longrightarrow> n = 5"
    using res by (simp add: n_def length_userAgents)
  have fails: "isl (fst (parseWithFeedParser E u)) \<longrightarrow>
            (n = 5 \<and> rejected (http (userAgents ! 4))) \<or>
            (\<exists>err. http (userAgents ! (n - 1)) = Response (Inl err))"
  proof
    assume f: "isl (fst (parseWithFeedParser E u))"
    show "(n = 5 \<and> rejected (http (userAgents ! 4))) \<or>
            (\<exists>err. http (userAgents ! (n - 1)) = Response (Inl err))"
    proof (cases "http (userAgents ! (n - 1))")
      case (Rejected err)
      then have r: "rejected (http (userAgents ! (n - 1)))" by (simp add: rejected_def)
      with lastrej have "n = 5" by simp
      with r show ?thesis by simp
    next
      case (Response body)
      with f ends show ?thesis
        by (cases body) (simp_all add: settle_def)
    qed
  qed
  have succeeds: "\<not> isl (fst (parseWithFeedParser E u)) \<longrightarrow>
            (\<exists>read_items. http (userAgents ! (n - 1)) = Response (Inr read_items)) \<and>
            length (requests (snd (parseWithFeedParser E u))) = n"
  proof
    assume s: "\<not> isl (fst (parseWithFeedParser E u))"
    have "\<exists>read_items. http (userAgents ! (n - 1)) = Response (Inr read_items)"
    proof (cases "http (userAgents ! (n - 1))")
      case (Rejected err)
      with s ends show ?thesis by (simp add: settle_def)
    next
      case (Response body)
      with s ends show ?thesis
        by (cases body) (simp_all add: settle_def)
    qed
    moreover have "length (requests (snd (parseWithFeedParser E u))) = n"
      using req n5 by (simp add: length_userAgents)
    ultimately show "(\<exists>read_items. http (userAgents ! (n - 1)) = Response (Inr read_items)) \<and>
            length (requests (snd (parseWithFeedParser E u))) = n" by blast
  qed
  show ?thesis
    by (rule conjI[OF list conjI[OF n1 conjI[OF n5 conjI[OF req conjI[OF sch conjI[OF before
          conjI[OF ends conjI[OF lastrej conjI[OF fails succeeds]]]]]]]]])
qed

text \<open>
  C6 read to the letter has the fallback fail only after every User-Agent has been tried.
  Feed E answers the first GET with a page that is no feed: the parser reports an error,
  the promise is rejected, and no other User-Agent is tried.
\<close>

theorem fallback_rotation_counterexample:
  "isl (fst (parseWithFeedParser example_env ''https://e.example/rss'')) \<and>
   snd (parseWithFeedParser example_env ''https://e.example/rss'') = [Request (userAgents ! 0)] \<and>
   length (requests (snd (parseWithFeedParser example_env ''https://e.example/rss''))) = 1"
  by code_simp

text \<open>
  Feed D refuses the first two User-Agents and answers the third: three GETs in the
  declared order, a timer after each refusal, and the promise is resolved.
\<close>

theorem fallback_rotation_witness:
  "attempts_from (axios example_env ''https://d.example/rss'') 0 = 3 \<and>
   \<not> isl (fst (parseWithFeedParser example_env ''https://d.example/rss'')) \<and>
   requests (snd (parseWithFeedParser example_env ''https://d.example/rss'')) = take 3 userAgents \<and>
   schedule (snd (parseWithFeedParser example_env ''https://d.example/rss''))
     = [Request (userAgents ! 0), SetTimeout 1000, Request (userAgents ! 1), SetTimeout 1000,
        Request (userAgents ! 2)]"
proof -
  have n: "attempts_from (axios example_env ''https://d.example/rss'') 0 = 3" by code_simp
  have ok: "\<not> isl (fst (parseWithFeedParser example_env ''https://d.example/rss''))" by code_simp
  have alt: "alternation (take 3 userAgents)
     = [Request (userAgents ! 0), SetTimeout 1000, Request (userAgents ! 1), SetTimeout 1000,
        Request (userAgents ! 2)]" by code_simp
  note inst = fallback_rotation[of example_env "''https://d.example/rss''", unfolded n]
  have r: "requests (snd (parseWithFeedParser example_env ''https://d.example/rss'')) = take 3 userAgents"
    using inst by blast
  have s: "schedule (snd (parseWithFeedParser example_env ''https://d.example/rss''))
     = alternation (take 3 userAgents)"
    using inst by blast
  from n ok r s alt show ?thesis by simp
qed


section \<open>Properties of \<^verbatim>\<open>cleanOldArticles\<close>\<close>

text \<open>
  The cutoff is \<open>daysToKeep\<close> days of 24 hours before now on the local clock: in a zone
  with a fixed offset that is \<open>daysToKeep\<close> times 86400000 ms before now, and across a
  change of offset it differs from that by the change.
\<close>

lemma MakeDate_back: "MakeDate (Day t - k) (TimeWithinDay t) = t - k * msPerDay"
proof -
  have "t div msPerDay * msPerDay + t mod msPerDay = t" by simp
  then show ?thesis
    by (simp add: MakeDate_def Day_def TimeWithinDay_def left_diff_distrib)
qed

lemma cutoffDate_eq:
  "cutoffDate LocalTZA now k =
     TimeClip (now + LocalTZA now True - k * 86400000
               - LocalTZA (now + LocalTZA now True - k * 86400000) False)"
  by (simp add: cutoffDate_def Let_def MakeDate_back LocalTime_def UTC_def msPerDay_def)

lemma cutoffDate_fixed_offset:
  assumes "\<And>t isUTC. LocalTZA t isUTC = z"
  shows "cutoffDate LocalTZA now k = TimeClip (now - k * 86400000)"
  by (simp add: cutoffDate_eq assms)

lemma cutoffDate_examples:
  "cutoffDate utc 1700000000000 30 = Some 1697408000000 \<and>
   1700000000000 - 30 * 86400000 = (1697408000000 :: int) \<and>
   cutoffDate new_york_2023 1699444800000 7 = Some 1698836400000 \<and>
   1699444800000 - 7 * 86400000 = (1698840000000 :: int) \<and>
   cutoffDate utc 1700000000000 200000000 = None"
  by code_simp

text \<open>With ids that are a key, deleting by id deletes exactly the rows the ids came from.\<close>

lemma destroy_rows:
  assumes "distinct (map rowid (rows st))" and "set S \<subseteq> set (rows st)"
  shows "rows (snd (destroy st (map rowid S))) = filter (\<lambda>a. a \<notin> set S) (rows st)"
proof -
  have "rowid a \<in> rowid ` set S \<longleftrightarrow> a \<in> set S" if "a \<in> set (rows st)" for a
    using assms that by (auto simp: distinct_map dest!: inj_onD)
  then show ?thesis
    by (simp add: destroy_def Let_def cong: filter_cong)
qed

lemma length_filter_compl:
  "length xs - length (filter P xs) = length (filter (\<lambda>x. \<not> P x) xs)"
  using sum_length_filter_compl[of P xs] by simp

text \<open>
  What the method deletes, on a table whose ids are distinct and whatever the order
  \<open>scan\<close> in which the engine numbers the rows: the articles published before the cutoff
  together with the rows numbered after the first \<open>cap\<close> of the whole table. The table
  afterwards is the table without them and the number returned is how many they are.
\<close>

lemma cleanOldArticles_deletes:
  fixes st :: store and cutoff cap :: int
  assumes ids: "distinct (map rowid (rows st))"
    and perm: "mset (scan (rows st)) = mset (rows st)"
    and cut: "cutoffDate LocalTZA now daysToKeep = Some cutoff"
  defines "gone \<equiv> {a \<in> set (rows st). pubDate a < cutoff}
                  \<union> set (drop (nat cap) (scan (rows st)))"
  shows "cleanOldArticles LocalTZA scan st now daysToKeep cap
           = Some (card gone, st\<lparr>rows := filter (\<lambda>a. a \<notin> gone) (rows st)\<rparr>)"
proof -
  let ?S = "oldArticles st cutoff @ excessArticles scan st cap"
  let ?kept = "filter (\<lambda>a. a \<notin> gone) (rows st)"
  have dr: "distinct (rows st)" using ids by (rule distinct_map[THEN iffD1, THEN conjunct1])
  have sets: "set (scan (rows st)) = set (rows st)"
    using perm by (rule mset_eq_setD)
  have setS: "set ?S = gone"
    by (auto simp: gone_def oldArticles_def excessArticles_def)
  have sub: "set ?S \<subseteq> set (rows st)"
    unfolding setS using sets by (auto simp: gone_def dest: in_set_dropD)
  have "length (rows st) - length ?kept = length (filter (\<lambda>a. a \<in> gone) (rows st))"
    using length_filter_compl[of "rows st" "\<lambda>a. a \<notin> gone"] by simp
  also have "\<dots> = card (set (filter (\<lambda>a. a \<in> gone) (rows st)))"
    using distinct_card[of "filter (\<lambda>a. a \<in> gone) (rows st)"] dr by (simp del: set_filter)
  also have "set (filter (\<lambda>a. a \<in> gone) (rows st)) = gone"
    using sub unfolding setS by auto
  finally have card: "length (rows st) - length ?kept = card gone" .
  show ?thesis
  proof (cases "?S = []")
    case True
    then have "gone = {}" using setS by simp
    with True show ?thesis
      by (simp add: cleanOldArticles_def cut Let_def)
  next
    case False
    then have c: "cleanOldArticles LocalTZA scan st now daysToKeep cap
                    = Some (destroy st (map rowid ?S))"
      by (simp add: cleanOldArticles_def cut Let_def)
    have k: "rows (snd (destroy st (map rowid ?S))) = ?kept"
      using destroy_rows[OF ids sub] unfolding setS .
    have "destroy st (map rowid ?S)
            = (length (rows st) - length (rows (snd (destroy st (map rowid ?S)))),
               st\<lparr>rows := rows (snd (destroy st (map rowid ?S)))\<rparr>)"
      by (simp add: destroy_def Let_def)
    then show ?thesis
      unfolding c k card by simp
  qed
qed

text \<open>
  The rule on age alone, at time 1700000000000 with 30 days and a cap that the table does
  not reach: the article published 31 days before is deleted and the one published 29
  days before is kept.
\<close>

lemma cleanOldArticles_age_example:
  "cleanOldArticles utc (\<lambda>table. table) aged_store 1700000000000 30 100
     = Some (1, aged_store\<lparr>rows := tl (rows aged_store)\<rparr>)"
  by code_simp

text \<open>
  C5, at an input where the code departs from it. The table holds three feeds with two
  articles each; the time is 1700000000000, with 30 days of retention and a cap of 2
  articles per feed. No article was published before the cutoff and no feed has more than
  2 articles, so by C5 nothing is deleted. The window query numbers the six rows as one
  partition: whatever the order \<open>scan\<close> in which the engine numbers them, four articles
  are deleted, 4 is returned and two articles are left.
\<close>

theorem retention_pruning_failing_input:
  assumes "mset (scan (rows three_feeds_store)) = mset (rows three_feeds_store)"
  shows "cutoffDate utc 1700000000000 30 = Some 1697408000000 \<and>
         oldArticles three_feeds_store 1697408000000 = [] \<and>
         map (\<lambda>fid. length (filter (\<lambda>a. feedId a = fid) (rows three_feeds_store))) [1, 2, 3]
           = [2, 2, 2] \<and>
         (\<exists>kept. cleanOldArticles utc scan three_feeds_store 1700000000000 30 2
                    = Some (4, three_feeds_store\<lparr>rows := kept\<rparr>) \<and>
                  length kept = 2 \<and> set kept \<subseteq> set (rows three_feeds_store))"
proof -
  let ?st = three_feeds_store
  let ?gone = "{a \<in> set (rows ?st). pubDate a < 1697408000000}
                 \<union> set (drop (nat 2) (scan (rows ?st)))"
  let ?kept = "filter (\<lambda>a. a \<notin> ?gone) (rows ?st)"
  have cut: "cutoffDate utc 1700000000000 30 = Some 1697408000000" by code_simp
  have old: "oldArticles ?st 1697408000000 = []" by code_simp
  have per_feed: "map (\<lambda>fid. length (filter (\<lambda>a. feedId a = fid) (rows ?st))) [1, 2, 3]
           = [2, 2, 2]"
    by code_simp
  have ids: "distinct (map rowid (rows ?st))" by code_simp
  have len: "length (rows ?st) = 6" by code_simp
  have dr: "distinct (rows ?st)" using ids by (rule distinct_map[THEN iffD1, THEN conjunct1])
  have run: "cleanOldArticles utc scan ?st 1700000000000 30 2
               = Some (card ?gone, ?st\<lparr>rows := ?kept\<rparr>)"
    using cleanOldArticles_deletes[where st = three_feeds_store and scan = scan
        and LocalTZA = utc and now = 1700000000000 and daysToKeep = 30
        and cutoff = 1697408000000 and cap = 2]
      ids assms cut
    by blast
  have "{a \<in> set (rows ?st). pubDate a < 1697408000000} = set (oldArticles ?st 1697408000000)"
    by (simp add: oldArticles_def)
  then have none_old: "{a \<in> set (rows ?st). pubDate a < 1697408000000} = {}"
    unfolding old by simp
  have gone: "?gone = set (drop (nat 2) (scan (rows ?st)))"
    unfolding none_old by (rule Un_empty_left)
  have ds: "distinct (scan (rows ?st))"
    using dr assms by (metis mset_eq_imp_distinct_iff)
  have ls: "length (scan (rows ?st)) = 6"
    using assms len by (metis size_mset)
  have "card ?gone = length (drop (nat 2) (scan (rows ?st)))"
    unfolding gone using ds by (simp add: distinct_card)
  then have card: "card ?gone = 4" using ls by simp
  have "length (rows ?st) - length ?kept = length (filter (\<lambda>a. a \<in> ?gone) (rows ?st))"
    using length_filter_compl[of "rows ?st" "\<lambda>a. a \<notin> ?gone"] by simp
  also have "\<dots> = card (set (filter (\<lambda>a. a \<in> ?gone) (rows ?st)))"
    using distinct_card[of "filter (\<lambda>a. a \<in> ?gone) (rows ?st)"] dr by (simp del: set_filter)
  also have "set (filter (\<lambda>a. a \<in> ?gone) (rows ?st)) = ?gone"
    using mset_eq_setD[OF assms] unfolding gone by (auto dest: in_set_dropD)
  finally have "length (rows ?st) - length ?kept = 4" using card by simp
  moreover have "length ?kept \<le> length (rows ?st)" by (rule length_filter_le)
  ultimately have lk: "length ?kept = 2" using len by simp
  have "set ?kept \<subseteq> set (rows ?st)" by auto
  with run card lk have
    "\<exists>kept. cleanOldArticles utc scan ?st 1700000000000 30 2 = Some (4, ?st\<lparr>rows := kept\<rparr>) \<and>
            length kept = 2 \<and> set kept \<subseteq> set (rows ?st)"
    by (intro exI[of _ ?kept]) simp
  with cut old per_feed show ?thesis by blast
qed

text \<open>
  Two orders: numbered in the order of the table, articles 3 to 6 are deleted; numbered
  in the reverse order, articles 1 to 4.
\<close>

theorem retention_pruning_failing_input_witness:
  "mset (rev (rows three_feeds_store)) = mset (rows three_feeds_store) \<and>
   cleanOldArticles utc (\<lambda>table. table) three_feeds_store 1700000000000 30 2
     = Some (4, three_feeds_store\<lparr>rows := take 2 (rows three_feeds_store)\<rparr>) \<and>
   cleanOldArticles utc rev three_feeds_store 1700000000000 30 2
     = Some (4, three_feeds_store\<lparr>rows := drop 4 (rows three_feeds_store)\<rparr>) \<and>
   (\<exists>kept. cleanOldArticles utc rev three_feeds_store 1700000000000 30 2
              = Some (4, three_feeds_store\<lparr>rows := kept\<rparr>) \<and> length kept = 2)"
proof -
  have p: "mset (rev (rows three_feeds_store)) = mset (rows three_feeds_store)" by simp
  have a: "cleanOldArticles utc (\<lambda>table. table) three_feeds_store 1700000000000 30 2
     = Some (4, three_feeds_store\<lparr>rows := take 2 (rows three_feeds_store)\<rparr>)"
    by code_simp
  have b: "cleanOldArticles utc rev three_feeds_store 1700000000000 30 2
     = Some (4, three_feeds_store\<lparr>rows := drop 4 (rows three_feeds_store)\<rparr>)"
    by code_simp
  from retention_pruning_failing_input[of rev, OF p] p a b show ?thesis by blast
qed


end
